theory Spec2Isabelle
  imports Complex_Main "HOL-Library.Log_Nat"
begin

section \<open>Python values used by both scripts\<close>

text \<open>
  Python's \<open>str\<close> is modelled as \<open>string\<close> and its unbounded \<open>int\<close> as \<open>int\<close>.
  Every exception a modelled statement can raise is a value of \<open>error\<close>.
\<close>

datatype error = IndexError | ValueError | OverflowError | SystemExit string

subsection \<open>Python's \<open>str\<close> methods\<close>

text \<open>
  A \<open>char\<close> stands for the code point of the same number, so the strings of the model
  are the Python strings over the code points below 256. The character classes are
  those of \<open>str.isspace\<close>, \<open>str.isalpha\<close>, \<open>str.isdigit\<close> and \<open>str.lower\<close> on
  that range.
\<close>

definition ord :: "char \<Rightarrow> nat" where
  "ord c = of_char c"

definition isspace :: "char \<Rightarrow> bool" where
  "isspace c = (let n = ord c in (9 \<le> n \<and> n \<le> 13) \<or> (28 \<le> n \<and> n \<le> 32) \<or> n = 133 \<or> n = 160)"

definition isalpha :: "char \<Rightarrow> bool" where
  "isalpha c =
     (let n = ord c
      in (65 \<le> n \<and> n \<le> 90) \<or> (97 \<le> n \<and> n \<le> 122) \<or> n = 170 \<or> n = 181 \<or> n = 186 \<or>
         (192 \<le> n \<and> n \<le> 214) \<or> (216 \<le> n \<and> n \<le> 246) \<or> 248 \<le> n)"

definition isdigit :: "char \<Rightarrow> bool" where
  "isdigit c = (let n = ord c in (48 \<le> n \<and> n \<le> 57) \<or> n = 178 \<or> n = 179 \<or> n = 185)"

definition lower_char :: "char \<Rightarrow> char" where
  "lower_char c =
     (let n = ord c
      in if (65 \<le> n \<and> n \<le> 90) \<or> (192 \<le> n \<and> n \<le> 214) \<or> (216 \<le> n \<and> n \<le> 222)
         then char_of (n + 32) else c)"

definition lower :: "string \<Rightarrow> string" where
  "lower s = map lower_char s"

definition lstrip :: "string \<Rightarrow> string" where
  "lstrip s = dropWhile isspace s"

definition rstrip :: "string \<Rightarrow> string" where
  "rstrip s = rev (dropWhile isspace (rev s))"

definition strip :: "string \<Rightarrow> string" where
  "strip s = rstrip (lstrip s)"

definition startswith :: "string \<Rightarrow> string \<Rightarrow> bool" where
  "startswith s p = (take (length p) s = p)"

definition endswith :: "string \<Rightarrow> string \<Rightarrow> bool" where
  "endswith s e = (length e \<le> length s \<and> drop (length s - length e) s = e)"

text \<open>\<open>s.split(sep)\<close> for a separator of one character: every field, empty ones too.\<close>

fun split_on :: "char \<Rightarrow> string \<Rightarrow> string list" where
  "split_on sep [] = [[]]"
| "split_on sep (c # cs) =
     (if c = sep then [] # split_on sep cs
      else (case split_on sep cs of
              [] \<Rightarrow> [[c]]
            | w # ws \<Rightarrow> (c # w) # ws))"

text \<open>\<open>s.split()\<close>: the maximal runs of characters that are not whitespace.\<close>

fun split_ws_loop :: "string \<Rightarrow> string \<Rightarrow> string list" where
  "split_ws_loop cur [] = (if cur = [] then [] else [cur])"
| "split_ws_loop cur (c # cs) =
     (if isspace c then (if cur = [] then split_ws_loop [] cs else cur # split_ws_loop [] cs)
      else split_ws_loop (cur @ [c]) cs)"

definition split_ws :: "string \<Rightarrow> string list" where
  "split_ws s = split_ws_loop [] s"

text \<open>\<open>s.split(sep, 1)[0]\<close>: the text before the first separator, all of \<open>s\<close> without one.\<close>

definition split1_head :: "char \<Rightarrow> string \<Rightarrow> string" where
  "split1_head sep s = takeWhile (\<lambda>c. c \<noteq> sep) s"

text \<open>\<open>s.rsplit(sep, 1)[-1]\<close>: the text after the last separator, all of \<open>s\<close> without one.\<close>

definition rsplit1_last :: "char \<Rightarrow> string \<Rightarrow> string" where
  "rsplit1_last sep s = rev (takeWhile (\<lambda>c. c \<noteq> sep) (rev s))"

text \<open>\<open>s.rsplit(sep, 1)[0]\<close>: the text before the last separator, all of \<open>s\<close> without one.\<close>

definition rsplit1_head :: "char \<Rightarrow> string \<Rightarrow> string" where
  "rsplit1_head sep s =
     (if sep \<in> set s then rev (tl (dropWhile (\<lambda>c. c \<noteq> sep) (rev s))) else s)"

text \<open>\<open>sep.join(parts)\<close>.\<close>

fun join :: "string \<Rightarrow> string list \<Rightarrow> string" where
  "join sep [] = []"
| "join sep [p] = p"
| "join sep (p # q # ps) = p @ sep @ join sep (q # ps)"

text \<open>
  \<open>xs[:k]\<close>: the first \<open>k\<close> elements, and for a negative \<open>k\<close> all but the last \<open>-k\<close>.
\<close>

definition slice_to :: "int \<Rightarrow> 'a list \<Rightarrow> 'a list" where
  "slice_to k xs =
     (if 0 \<le> k then take (nat k) xs
      else if - k < int (length xs) then take (length xs - nat (- k)) xs
      else [])"

subsection \<open>Python's \<open>float\<close>\<close>

text \<open>
  A \<open>float\<close> is an IEEE 754 binary64 value: a finite number, one of the two infinities
  or NaN. A finite value is kept as the rational it denotes (the two zeros are not told
  apart: nothing below depends on the sign of a zero). The result of an arithmetic
  operation is the exact result rounded to the nearest binary64 value, ties to the even
  significand; such a result with an exponent above 1023, that is of magnitude
  \<open>2^1024\<close> or more, is an infinity.
\<close>

datatype pyfloat = Fin rat | PInf | NInf | NaN

definition isnan :: "pyfloat \<Rightarrow> bool" where
  "isnan x = (x = NaN)"

definition round_half_even :: "rat \<Rightarrow> int" where
  "round_half_even r =
     (let f = \<lfloor>r\<rfloor>; d = r - of_int f
      in if d < 1 / 2 then f
         else if 1 / 2 < d then f + 1
         else if even f then f else f + 1)"

text \<open>The exponent \<open>e\<close> of a positive rational \<open>r\<close>: \<open>2^e \<le> r < 2^(e+1)\<close>.\<close>

definition ilog2 :: "rat \<Rightarrow> int" where
  "ilog2 r =
     (let (p, q) = quotient_of r; d = bitlen p - bitlen q
      in if 2 powi d \<le> r then d else d - 1)"

text \<open>
  The spacing of the binary64 values around \<open>r\<close>: 53 bits of significand, and the fixed
  spacing \<open>2^-1074\<close> of the subnormal range below \<open>2^-1022\<close>.
\<close>

definition ulp :: "rat \<Rightarrow> rat" where
  "ulp r = 2 powi (max (ilog2 \<bar>r\<bar> - 52) (- 1074))"

definition round_binary64 :: "rat \<Rightarrow> pyfloat" where
  "round_binary64 r =
     (if r = 0 then Fin 0
      else let y = of_int (round_half_even (r / ulp r)) * ulp r
           in if y \<noteq> 0 \<and> 1024 \<le> ilog2 \<bar>y\<bar> then (if 0 < y then PInf else NInf)
              else Fin y)"

text \<open>\<open>x / 100.0\<close>.\<close>

definition div_100 :: "pyfloat \<Rightarrow> pyfloat" where
  "div_100 x = (case x of Fin p \<Rightarrow> round_binary64 (p / 100) | _ \<Rightarrow> x)"

text \<open>\<open>float(n)\<close> for an \<open>int\<close>, the conversion \<open>n * x\<close> applies to its left operand.\<close>

definition float_of_int :: "int \<Rightarrow> error + rat" where
  "float_of_int n =
     (case round_binary64 (of_int n) of Fin a \<Rightarrow> Inr a | _ \<Rightarrow> Inl OverflowError)"

text \<open>The product of two floats, the left one finite.\<close>

definition float_mul :: "rat \<Rightarrow> pyfloat \<Rightarrow> pyfloat" where
  "float_mul a x =
     (case x of
        Fin b \<Rightarrow> round_binary64 (a * b)
      | PInf \<Rightarrow> if 0 < a then PInf else if a < 0 then NInf else NaN
      | NInf \<Rightarrow> if 0 < a then NInf else if a < 0 then PInf else NaN
      | NaN \<Rightarrow> NaN)"

text \<open>\<open>math.ceil\<close>: ValueError on NaN, OverflowError on an infinity.\<close>

definition math_ceil :: "pyfloat \<Rightarrow> error + int" where
  "math_ceil x =
     (case x of
        Fin r \<Rightarrow> Inr \<lceil>r\<rceil>
      | NaN \<Rightarrow> Inl ValueError
      | _ \<Rightarrow> Inl OverflowError)"

text \<open>\<open>a < b\<close> on floats: false as soon as one side is NaN.\<close>

fun float_lt :: "pyfloat \<Rightarrow> pyfloat \<Rightarrow> bool" where
  "float_lt NaN _ = False"
| "float_lt _ NaN = False"
| "float_lt (Fin a) (Fin b) = (a < b)"
| "float_lt _ NInf = False"
| "float_lt NInf _ = True"
| "float_lt PInf _ = False"
| "float_lt _ PInf = True"

subsection \<open>\<open>str(int)\<close>: the decimal text of an integer\<close>

definition digit_char :: "nat \<Rightarrow> char" where
  "digit_char d = char_of (48 + d)"

fun str_nat :: "nat \<Rightarrow> string" where
  "str_nat n = (if n < 10 then [digit_char n] else str_nat (n div 10) @ [digit_char (n mod 10)])"

declare str_nat.simps [simp del]

definition str_int :: "int \<Rightarrow> string" where
  "str_int i = (if i < 0 then CHR ''-'' # str_nat (nat (- i)) else str_nat (nat i))"

section \<open>generate_folddisco_input.py\<close>

subsection \<open>\<open>collapse_ranges\<close>\<close>

text \<open>
  One token of the motif column, as the two f-strings of the source build it:
  \<open>f"{chain}{start}"\<close> when the run is a single index and
  \<open>f"{chain}{start}-{prev}"\<close> otherwise.
\<close>

definition emit_token :: "string \<Rightarrow> int \<Rightarrow> int \<Rightarrow> string" where
  "emit_token chain start prev =
     (if start = prev then chain @ str_int start
      else chain @ str_int start @ ''-'' @ str_int prev)"

text \<open>
  The \<open>for x in indices[1:]\<close> loop with its three variables \<open>start\<close>, \<open>prev\<close> and
  \<open>tokens\<close>; the equation for the empty rest is the code after the loop.
\<close>

fun collapse_loop :: "string \<Rightarrow> int \<Rightarrow> int \<Rightarrow> string list \<Rightarrow> int list \<Rightarrow> string list" where
  "collapse_loop chain start prev tokens [] = tokens @ [emit_token chain start prev]"
| "collapse_loop chain start prev tokens (x # xs) =
     (if x = prev + 1 then collapse_loop chain start x tokens xs
      else collapse_loop chain x x (tokens @ [emit_token chain start prev]) xs)"

definition collapse_ranges :: "string \<Rightarrow> int list \<Rightarrow> string list" where
  "collapse_ranges chain indices =
     (if indices = [] then []
      else (case sort (remdups indices) of
              [] \<Rightarrow> []
            | i0 # rest \<Rightarrow> collapse_loop chain i0 i0 [] rest))"

subsection \<open>\<open>extract_chain\<close> and \<open>base_id\<close>\<close>

text \<open>\<open>c and len(c) == 1 and (c.isalpha() or c.isdigit())\<close>.\<close>

definition single_chain :: "string \<Rightarrow> bool" where
  "single_chain c = (case c of [ch] \<Rightarrow> isalpha ch \<or> isdigit ch | _ \<Rightarrow> False)"

text \<open>The class \<open>[A-Za-z0-9]\<close> of the regular expression.\<close>

definition ascii_alnum :: "char \<Rightarrow> bool" where
  "ascii_alnum c =
     (let n = ord c in (65 \<le> n \<and> n \<le> 90) \<or> (97 \<le> n \<and> n \<le> 122) \<or> (48 \<le> n \<and> n \<le> 57))"

text \<open>
  \<open>re.search(r'([A-Za-z0-9])$', s)\<close>: \<open>$\<close> matches at the end of the string and just
  before a newline that ends it, and the search returns the leftmost match.
\<close>

definition trailing_alnum :: "string \<Rightarrow> string option" where
  "trailing_alnum s =
     (let t = (if s \<noteq> [] \<and> last s = CHR 0x0A then butlast s else s)
      in if t \<noteq> [] \<and> ascii_alnum (last t) then Some [last t] else None)"

definition extract_chain :: "string \<Rightarrow> string" where
  "extract_chain id_str =
     (if CHR ''_'' \<in> set id_str \<and> single_chain (last (split_on CHR ''_'' id_str))
      then last (split_on CHR ''_'' id_str)
      else (case trailing_alnum id_str of Some c \<Rightarrow> c | None \<Rightarrow> ''A''))"

definition base_id :: "string \<Rightarrow> string" where
  "base_id id_str =
     (if CHR ''_'' \<in> set id_str \<and> single_chain (last (split_on CHR ''_'' id_str))
      then join ''_'' (butlast (split_on CHR ''_'' id_str))
      else id_str)"

subsection \<open>\<open>select_indices\<close>\<close>

text \<open>\<open>enumerate(scores, start=i)\<close>.\<close>

fun enumerate_from :: "int \<Rightarrow> 'a list \<Rightarrow> (int \<times> 'a) list" where
  "enumerate_from i [] = []"
| "enumerate_from i (x # xs) = (i, x) # enumerate_from (i + 1) xs"

text \<open>
  \<open>indexed.sort(key=lambda t: t[1], reverse=True)\<close>: the sort is stable, also when
  reversed, so the result is the one descending arrangement that keeps pairs of equal
  score in their order. None of the scores compared is NaN.
\<close>

fun insort_desc :: "int \<times> pyfloat \<Rightarrow> (int \<times> pyfloat) list \<Rightarrow> (int \<times> pyfloat) list" where
  "insort_desc t [] = [t]"
| "insort_desc t (u # us) =
     (if float_lt (snd t) (snd u) then u # insort_desc t us else t # u # us)"

definition sort_desc :: "(int \<times> pyfloat) list \<Rightarrow> (int \<times> pyfloat) list" where
  "sort_desc ts = foldr insort_desc ts []"

text \<open>\<open>math.ceil(n * (percent / 100.0))\<close> for the length \<open>n\<close> of a list.\<close>

definition ceil_count :: "nat \<Rightarrow> pyfloat \<Rightarrow> error + int" where
  "ceil_count n pct =
     (case float_of_int (int n) of
        Inl e \<Rightarrow> Inl e
      | Inr a \<Rightarrow> math_ceil (float_mul a (div_100 pct)))"

text \<open>The list \<open>indexed\<close> that the first loop fills: NaN counts as \<open>-1e9\<close>.\<close>

definition indexed :: "pyfloat list \<Rightarrow> (int \<times> pyfloat) list" where
  "indexed scores =
     map (\<lambda>(i, s). (i, if isnan s then Fin (- 1000000000) else s)) (enumerate_from 1 scores)"

definition select_indices :: "pyfloat list \<Rightarrow> pyfloat \<Rightarrow> int \<Rightarrow> error + int list" where
  "select_indices scores pct min_res =
     (if indexed scores = [] then Inr []
      else (case ceil_count (length (indexed scores)) pct of
              Inl e \<Rightarrow> Inl e
            | Inr c \<Rightarrow>
                (let k = max min_res c; top = slice_to k (sort_desc (indexed scores))
                 in Inr (map fst top))))"

subsection \<open>\<open>resolve_pdb_path\<close>\<close>

text \<open>
  A \<open>Path\<close> is kept as the text \<open>str\<close> gives for it. \<open>posix_path s\<close> is
  \<open>str(Path(s))\<close>: the root is \<open>/\<close>, or \<open>//\<close> for exactly two leading slashes; empty
  components and \<open>.\<close> components are dropped; a path with neither root nor component
  is \<open>.\<close>. \<open>path_join d name\<close> is \<open>str(Path(d) / name)\<close>: an absolute \<open>name\<close>
  replaces \<open>d\<close>. The file system is an argument: \<open>path_exists\<close> answers
  \<open>Path.exists\<close>, and \<open>glob_sorted d pat\<close> is \<open>sorted(d.glob(pat))\<close>.
\<close>

record filesystem =
  path_exists :: "string \<Rightarrow> bool"
  glob_sorted :: "string \<Rightarrow> string \<Rightarrow> string list"

definition posix_path :: "string \<Rightarrow> string" where
  "posix_path s =
     (let root = (if startswith s ''//'' \<and> \<not> startswith s ''///'' then ''//''
                  else if startswith s ''/'' then ''/'' else []);
          parts = filter (\<lambda>p. p \<noteq> [] \<and> p \<noteq> ''.'') (split_on CHR ''/'' s);
          r = root @ join ''/'' parts
      in if r = [] then ''.'' else r)"

text \<open>\<open>posixpath.join(a, b)\<close>, which joins the two texts before they are parsed.\<close>

definition os_path_join :: "string \<Rightarrow> string \<Rightarrow> string" where
  "os_path_join a b =
     (if startswith b ''/'' then b
      else if a = [] \<or> endswith a ''/'' then a @ b
      else a @ ''/'' @ b)"

definition path_join :: "string \<Rightarrow> string \<Rightarrow> string" where
  "path_join d name = posix_path (os_path_join (posix_path d) name)"

definition resolve_pdb_path :: "filesystem \<Rightarrow> string \<Rightarrow> string \<Rightarrow> string" where
  "resolve_pdb_path fs pdb_dir original_id =
     (let b = base_id original_id;
          candidates = [path_join pdb_dir (original_id @ ''_.pdb''),
                        path_join pdb_dir (original_id @ ''.pdb''),
                        path_join pdb_dir (b @ ''_.pdb''),
                        path_join pdb_dir (b @ ''.pdb'')]
      in (case filter (path_exists fs) candidates of
            c # _ \<Rightarrow> c
          | [] \<Rightarrow>
              (case glob_sorted fs (posix_path pdb_dir) (b @ ''*.pdb'') of
                 g # _ \<Rightarrow> g
               | [] \<Rightarrow> path_join pdb_dir (original_id @ ''_.pdb''))))"

subsection \<open>The rows of the manifest\<close>

text \<open>
  The part of \<open>main\<close> from the two checks of the arguments to the list \<open>rows\<close> and
  the text written from it. A row is kept by columns; \<open>render_row\<close> is its line. The
  text of a float that is not a whole number is Python's own and enters as the argument
  \<open>str_of_float\<close>. The name of the manifest file, which no row depends on, is left
  out.
\<close>

record gen_args =
  percent :: pyfloat
  min_residues :: int
  pdb_dir :: string
  with_output_path :: bool
  output_dir :: "string option"
  per_chain :: bool

text \<open>
  \<open>percent_str\<close>: \<open>int(args.percent)\<close> raises on NaN and on the infinities, and
  truncates towards zero otherwise.
\<close>

definition percent_str :: "(pyfloat \<Rightarrow> string) \<Rightarrow> pyfloat \<Rightarrow> error + string" where
  "percent_str str_of_float x =
     (case x of
        NaN \<Rightarrow> Inl ValueError
      | PInf \<Rightarrow> Inl OverflowError
      | NInf \<Rightarrow> Inl OverflowError
      | Fin p \<Rightarrow>
          (let i = (if 0 \<le> p then \<lfloor>p\<rfloor> else \<lceil>p\<rceil>)
           in if p = of_int i then Inr (str_int i)
              else Inr (map (\<lambda>c. if c = CHR ''.'' then CHR ''p'' else c) (str_of_float x))))"

text \<open>
  \<open>out_dir\<close> as the rows see it: the subdirectory of \<open>--output-dir\<close> named after the
  percent value, or \<open>None\<close> when the option is absent or empty.
\<close>

definition out_dir_of :: "gen_args \<Rightarrow> string \<Rightarrow> string option" where
  "out_dir_of args pstr =
     (case output_dir args of
        Some d \<Rightarrow> if d = [] then None else Some (path_join d pstr)
      | None \<Rightarrow> None)"

record manifest_row =
  row_pdb :: string
  row_motif :: string
  row_out :: "string option"

definition render_row :: "manifest_row \<Rightarrow> string" where
  "render_row r =
     (case row_out r of
        None \<Rightarrow> row_pdb r @ [CHR 0x09] @ row_motif r
      | Some f \<Rightarrow> row_pdb r @ [CHR 0x09] @ row_motif r @ [CHR 0x09] @ f)"

definition out_column :: "gen_args \<Rightarrow> string option \<Rightarrow> string \<Rightarrow> string option" where
  "out_column args out_dir name =
     (case out_dir of
        Some d \<Rightarrow> if with_output_path args then Some (path_join d (name @ ''_motif.out'')) else None
      | None \<Rightarrow> None)"

text \<open>The loop of the \<open>--per-chain\<close> branch.\<close>

fun per_chain_rows ::
  "gen_args \<Rightarrow> string option \<Rightarrow> (string \<times> pyfloat list) list \<Rightarrow> error + manifest_row list" where
  "per_chain_rows args out_dir [] = Inr []"
| "per_chain_rows args out_dir ((id_str, scores) # rest) =
     (if scores = [] then per_chain_rows args out_dir rest
      else (case select_indices scores (percent args) (min_residues args) of
              Inl e \<Rightarrow> Inl e
            | Inr sel \<Rightarrow>
                (let motif_parts = collapse_ranges (extract_chain id_str) sel
                 in if motif_parts = [] then per_chain_rows args out_dir rest
                    else (case per_chain_rows args out_dir rest of
                            Inl e \<Rightarrow> Inl e
                          | Inr rows \<Rightarrow>
                              Inr (\<lparr>row_pdb = path_join (pdb_dir args) (id_str @ ''_.pdb''),
                                    row_motif = join '','' motif_parts,
                                    row_out = out_column args out_dir id_str\<rparr> # rows)))))"

text \<open>
  \<open>chain_sel_map[b].append(v)\<close> on a \<open>defaultdict(list)\<close>: a dictionary keeps its keys in
  the order of their first insertion, so it is an association list.
\<close>

fun dict_append :: "(string \<times> 'v list) list \<Rightarrow> string \<Rightarrow> 'v \<Rightarrow> (string \<times> 'v list) list" where
  "dict_append [] b v = [(b, [v])]"
| "dict_append ((k, vs) # m) b v =
     (if k = b then (k, vs @ [v]) # m else (k, vs) # dict_append m b v)"

text \<open>The first loop of the merged branch, which fills \<open>chain_sel_map\<close>.\<close>

fun group_chains ::
  "gen_args \<Rightarrow> (string \<times> (string \<times> int list) list) list \<Rightarrow> (string \<times> pyfloat list) list \<Rightarrow>
   error + (string \<times> (string \<times> int list) list) list" where
  "group_chains args m [] = Inr m"
| "group_chains args m ((id_str, scores) # rest) =
     (if scores = [] then group_chains args m rest
      else (case select_indices scores (percent args) (min_residues args) of
              Inl e \<Rightarrow> Inl e
            | Inr sel \<Rightarrow>
                if sel = [] then group_chains args m rest
                else group_chains args (dict_append m (base_id id_str) (extract_chain id_str, sel)) rest))"

text \<open>The body of the second loop: the row of one base identifier.\<close>

definition merged_row ::
  "gen_args \<Rightarrow> filesystem \<Rightarrow> string option \<Rightarrow> string \<times> (string \<times> int list) list \<Rightarrow> manifest_row" where
  "merged_row args fs out_dir entry =
     (case entry of (b, chain_lists) \<Rightarrow>
        \<lparr>row_pdb = resolve_pdb_path fs (pdb_dir args) b,
         row_motif = join '','' (concat (map (\<lambda>(chain, indices). collapse_ranges chain indices) chain_lists)),
         row_out = out_column args out_dir b\<rparr>)"

definition manifest_rows ::
  "(pyfloat \<Rightarrow> string) \<Rightarrow> gen_args \<Rightarrow> filesystem \<Rightarrow> string list \<Rightarrow> pyfloat list list \<Rightarrow>
   error + manifest_row list" where
  "manifest_rows str_of_float args fs ids score_lines =
     (if length score_lines \<noteq> length ids
      then Inl (SystemExit (''Mismatch: '' @ str_int (int (length ids)) @ '' ids vs '' @
                            str_int (int (length score_lines)) @ '' score lines''))
      else if with_output_path args \<and> (output_dir args = None \<or> output_dir args = Some [])
      then Inl (SystemExit ''--output-dir required with --with-output-path'')
      else (case percent_str str_of_float (percent args) of
              Inl e \<Rightarrow> Inl e
            | Inr pstr \<Rightarrow>
                (let out_dir = out_dir_of args pstr
                 in if per_chain args then per_chain_rows args out_dir (zip ids score_lines)
                    else (case group_chains args [] (zip ids score_lines) of
                            Inl e \<Rightarrow> Inl e
                          | Inr m \<Rightarrow> Inr (map (merged_row args fs out_dir) m)))))"

text \<open>The text written to the manifest: \<open>'\n'.join(rows) + ('\n' if rows else '')\<close>.\<close>

definition manifest_text :: "manifest_row list \<Rightarrow> string" where
  "manifest_text rows =
     join [CHR 0x0A] (map render_row rows) @ (if rows = [] then [] else [CHR 0x0A])"

subsection \<open>Reading motif tokens back\<close>

text \<open>
  The reading of a token that the specification gives: the chain label, then either one
  index or a closed range \<open>lo-hi\<close> that stands for every integer from \<open>lo\<close> to \<open>hi\<close>.
  An index is an optional minus sign and a non-empty run of decimal digits.
\<close>

definition is_digit :: "char \<Rightarrow> bool" where
  "is_digit c = (48 \<le> ord c \<and> ord c \<le> 57)"

definition digit_val :: "char \<Rightarrow> nat" where
  "digit_val c = ord c - 48"

fun read_digits :: "nat \<Rightarrow> string \<Rightarrow> nat \<times> string" where
  "read_digits acc [] = (acc, [])"
| "read_digits acc (c # cs) =
     (if is_digit c then read_digits (10 * acc + digit_val c) cs else (acc, c # cs))"

definition read_nat :: "string \<Rightarrow> (nat \<times> string) option" where
  "read_nat s = (case s of
       [] \<Rightarrow> None
     | c # cs \<Rightarrow> if is_digit c then Some (read_digits 0 s) else None)"

definition read_int :: "string \<Rightarrow> (int \<times> string) option" where
  "read_int s = (case s of
       [] \<Rightarrow> None
     | c # cs \<Rightarrow>
         if c = CHR ''-'' then map_option (\<lambda>(n, r). (- int n, r)) (read_nat cs)
         else map_option (\<lambda>(n, r). (int n, r)) (read_nat s))"

definition expand_token :: "string \<Rightarrow> string \<Rightarrow> int list option" where
  "expand_token chain tok =
     (if take (length chain) tok \<noteq> chain then None
      else (case read_int (drop (length chain) tok) of
              None \<Rightarrow> None
            | Some (lo, r) \<Rightarrow>
                (case r of
                   [] \<Rightarrow> Some [lo]
                 | c # r' \<Rightarrow>
                     if c \<noteq> CHR ''-'' then None
                     else (case read_int r' of
                             Some (hi, []) \<Rightarrow> Some [lo..hi]
                           | _ \<Rightarrow> None))))"

fun expand_tokens :: "string \<Rightarrow> string list \<Rightarrow> int list option" where
  "expand_tokens chain [] = Some []"
| "expand_tokens chain (t # ts) =
     (case expand_token chain t of
        None \<Rightarrow> None
      | Some xs \<Rightarrow> map_option ((@) xs) (expand_tokens chain ts))"

section \<open>combine_motif_outputs.py\<close>

subsection \<open>\<open>load_lookup\<close> and \<open>cleanup_id\<close>\<close>

definition STRUCT_EXTS :: "string list" where
  "STRUCT_EXTS = [''.pdb'', ''.cif'', ''.ent'', ''.gz'']"

text \<open>The loop over the lines of the lookup file, with the set \<open>valid\<close> it fills.\<close>

fun load_lookup_loop :: "string set \<Rightarrow> string list \<Rightarrow> string set" where
  "load_lookup_loop valid [] = valid"
| "load_lookup_loop valid (line # rest) =
     (if strip line = [] \<or> startswith line ''#'' then load_lookup_loop valid rest
      else (let first = strip (split1_head (CHR 0x09) line)
            in if first \<noteq> [] then load_lookup_loop (insert first valid) rest
               else load_lookup_loop valid rest))"

definition load_lookup :: "string list \<Rightarrow> string set" where
  "load_lookup lines = load_lookup_loop {} lines"

text \<open>
  One run of \<open>for ext in STRUCT_EXTS\<close> inside the \<open>while\<close> loop, with the two variables
  \<open>x\<close> and \<open>done\<close> it assigns.
\<close>

fun strip_exts_pass :: "string list \<Rightarrow> string \<Rightarrow> bool \<Rightarrow> string \<times> bool" where
  "strip_exts_pass [] x done = (x, done)"
| "strip_exts_pass (ext # exts) x done =
     (if endswith (lower x) ext
      then strip_exts_pass exts (slice_to (- int (length ext)) x) False
      else strip_exts_pass exts x done)"

text \<open>The \<open>while not done\<close> loop: it runs until a pass removes nothing.\<close>

function strip_exts :: "string \<Rightarrow> string" where
  "strip_exts x =
     (case strip_exts_pass STRUCT_EXTS x True of
        (x', done) \<Rightarrow> if done then x' else strip_exts x')"
  by pat_completeness auto
termination
proof (relation "measure length")
  show "wf (measure (length :: string \<Rightarrow> nat))" by simp
next
  fix x x' :: string and dn :: bool
  assume p: "(x', dn) = strip_exts_pass STRUCT_EXTS x True" and nd: "\<not> dn"
  have pass: "\<forall>e \<in> set exts. e \<noteq> [] \<Longrightarrow>
      length (fst (strip_exts_pass exts y d)) \<le> length y \<and>
      (\<not> snd (strip_exts_pass exts y d) \<longrightarrow> \<not> d \<or> length (fst (strip_exts_pass exts y d)) < length y)"
    for exts y d
  proof (induction exts arbitrary: y d)
    case Nil
    then show ?case by simp
  next
    case (Cons e es)
    show ?case
    proof (cases "endswith (lower y) e")
      case True
      then have "length e \<le> length y" by (simp add: endswith_def lower_def)
      moreover have "e \<noteq> []" using Cons.prems by simp
      ultimately have lt: "length (slice_to (- int (length e)) y) < length y"
        by (cases e) (auto simp: slice_to_def)
      have "\<forall>e \<in> set es. e \<noteq> []" using Cons.prems by simp
      from Cons.IH [OF this, of "slice_to (- int (length e)) y" False] lt True
      show ?thesis by auto
    next
      case False
      have "\<forall>e \<in> set es. e \<noteq> []" using Cons.prems by simp
      from Cons.IH [OF this, of y d] False show ?thesis by auto
    qed
  qed
  have "\<forall>e \<in> set STRUCT_EXTS. e \<noteq> []" by (simp add: STRUCT_EXTS_def)
  from pass [OF this, of x True] p nd
  have "length x' < length x" by (metis fst_conv snd_conv)
  then show "(x', x) \<in> measure length" by simp
qed

declare strip_exts.simps [simp del]

text \<open>
  \<open>cleanup_id\<close> up to the lookup: whitespace stripped, the directories of a path
  dropped, the structure-file extensions removed, and the text lowercased on request.
\<close>

definition normalize_id :: "string \<Rightarrow> bool \<Rightarrow> string" where
  "normalize_id raw lower_flag =
     (let x = strip raw;
          x = (if CHR ''/'' \<in> set x then rsplit1_last CHR ''/'' x else x);
          x = strip_exts x
      in if lower_flag then lower x else x)"

text \<open>\<open>lookup\<close> is \<open>None\<close> when no lookup file was given; the result \<open>None\<close> is Python's.\<close>

definition cleanup_id :: "string \<Rightarrow> bool \<Rightarrow> string set option \<Rightarrow> string option" where
  "cleanup_id raw lower_flag lookup =
     (let x = normalize_id raw lower_flag
      in (case lookup of
            Some valid \<Rightarrow>
              if x \<in> valid then Some x
              else if \<not> endswith x ''_'' \<and> (x @ ''_'') \<in> valid then Some (x @ ''_'')
              else if endswith x ''_'' \<and> butlast x \<in> valid then Some (butlast x)
              else None
          | None \<Rightarrow> Some x))"

subsection \<open>\<open>extract_query_id\<close> and \<open>iter_motif_lines\<close>\<close>

text \<open>\<open>os.path.basename\<close> on a POSIX path.\<close>

definition basename :: "string \<Rightarrow> string" where
  "basename path = rsplit1_last CHR ''/'' path"

definition extract_query_id :: "string \<Rightarrow> string" where
  "extract_query_id path = rsplit1_head CHR ''_'' (basename path)"

record comb_args =
  keep_nonlookup :: bool
  no_lower :: bool
  keep_selfhits :: bool
  dry_run :: bool
  add_header :: bool
  score_col :: int
  target_col :: int
  whitespace :: bool
  min_fields :: int
  max_files :: "int option"

text \<open>\<open>xs[i]\<close>: a negative index counts from the end, and one out of range raises.\<close>

definition index :: "'a list \<Rightarrow> int \<Rightarrow> error + 'a" where
  "index xs i =
     (if 0 \<le> i \<and> i < int (length xs) then Inr (xs ! nat i)
      else if i < 0 \<and> - int (length xs) \<le> i then Inr (xs ! nat (int (length xs) + i))
      else Inl IndexError)"

text \<open>The fields of a stripped line, as \<open>iter_motif_lines\<close> assigns \<open>parts\<close>.\<close>

definition line_parts :: "comb_args \<Rightarrow> string \<Rightarrow> string list" where
  "line_parts args stripped =
     (if whitespace args then split_ws stripped
      else (let parts = split_on (CHR 0x09) stripped
            in if int (length parts) < min_fields args then split_ws stripped else parts))"

text \<open>
  The body of the loop of \<open>iter_motif_lines\<close> for one line: \<open>Inr None\<close> when the line is
  passed over, \<open>Inr (Some (target, score))\<close> when the pair is yielded.
\<close>

definition motif_line :: "comb_args \<Rightarrow> string \<Rightarrow> error + (string \<times> string) option" where
  "motif_line args line =
     (let stripped = strip line
      in if stripped = [] \<or> startswith stripped ''#'' then Inr None
         else (let parts = line_parts args stripped
               in if int (length parts) < min_fields args then Inr None
                  else if int (length parts) \<le> target_col args \<or> int (length parts) \<le> score_col args
                  then Inr None
                  else (case index parts (target_col args) of
                          Inl e \<Rightarrow> Inl e
                        | Inr target \<Rightarrow>
                            (case index parts (score_col args) of
                               Inl e \<Rightarrow> Inl e
                             | Inr score \<Rightarrow> Inr (Some (target, score))))))"

subsection \<open>The loop of \<open>main\<close>\<close>

text \<open>
  \<open>float(score_txt)\<close> and the text of a float in an f-string are Python's own: the model
  takes them as the arguments \<open>float_of_str\<close> (\<open>None\<close> for ValueError) and
  \<open>str_of_float\<close>.

  The variables the loop updates. \<open>out\<close> holds the triplets written to \<open>out_fh\<close>, in
  order; \<open>render_triplet\<close> is the line written for one of them.
\<close>

record comb_state =
  out :: "(string \<times> string \<times> pyfloat) list"
  total_raw_lines :: nat
  total_kept :: nat
  total_self :: nat
  total_lookup_missing :: nat
  missing_ids :: "string set"

definition init_state :: comb_state where
  "init_state = \<lparr>out = [], total_raw_lines = 0, total_kept = 0, total_self = 0,
                  total_lookup_missing = 0, missing_ids = {}\<rparr>"

definition render_triplet :: "(pyfloat \<Rightarrow> string) \<Rightarrow> string \<times> string \<times> pyfloat \<Rightarrow> string" where
  "render_triplet str_of_float r =
     (case r of (q, t, score) \<Rightarrow>
        q @ [CHR 0x09] @ t @ [CHR 0x09] @ str_of_float score @ [CHR 0x0A])"

text \<open>The first extension of \<open>STRUCT_EXTS\<close> that ends the text is cut, and the loop left.\<close>

fun strip_first_ext :: "string list \<Rightarrow> string \<Rightarrow> string" where
  "strip_first_ext [] fallback = fallback"
| "strip_first_ext (ext # exts) fallback =
     (if endswith (lower fallback) ext then slice_to (- int (length ext)) fallback
      else strip_first_ext exts fallback)"

text \<open>\<open>target_raw.strip()\<close> with the directories of a path dropped.\<close>

definition raw_basename :: "string \<Rightarrow> string" where
  "raw_basename target_raw =
     (let x = strip target_raw in if CHR ''/'' \<in> set x then rsplit1_last CHR ''/'' x else x)"

definition fallback_id :: "string \<Rightarrow> bool \<Rightarrow> string" where
  "fallback_id target_raw lower_flag =
     (let fallback = strip_first_ext STRUCT_EXTS (raw_basename target_raw)
      in if lower_flag then lower fallback else fallback)"

text \<open>The body of the inner loop for one yielded pair \<open>(target_raw, score_txt)\<close>.\<close>

definition process_pair ::
  "(string \<Rightarrow> pyfloat option) \<Rightarrow> comb_args \<Rightarrow> string set option \<Rightarrow> string \<Rightarrow>
   string \<times> string \<Rightarrow> comb_state \<Rightarrow> comb_state" where
  "process_pair float_of_str args lookup q_clean pair st =
     (case pair of (target_raw, score_txt) \<Rightarrow>
        (let lower_flag = \<not> no_lower args;
             st = st\<lparr>total_raw_lines := total_raw_lines st + 1\<rparr>;
             t_opt = cleanup_id target_raw lower_flag lookup
         in if t_opt = None \<and> lookup \<noteq> None \<and> \<not> keep_nonlookup args
            then st\<lparr>total_lookup_missing := total_lookup_missing st + 1,
                    missing_ids := insert (raw_basename target_raw) (missing_ids st)\<rparr>
            else (let t_clean = (case t_opt of
                                   Some t \<Rightarrow> t
                                 | None \<Rightarrow> fallback_id target_raw lower_flag)
                  in if \<not> keep_selfhits args \<and> q_clean = t_clean
                     then st\<lparr>total_self := total_self st + 1\<rparr>
                     else (case float_of_str score_txt of
                             None \<Rightarrow> st
                           | Some score \<Rightarrow>
                               (let st = (if dry_run args then st
                                          else st\<lparr>out := out st @ [(q_clean, t_clean, score)]\<rparr>)
                                in st\<lparr>total_kept := total_kept st + 1\<rparr>)))))"

text \<open>
  The inner loop over the lines of one file. The result is the state reached and the
  exception that ended the loop, if one did.
\<close>

fun process_lines ::
  "(string \<Rightarrow> pyfloat option) \<Rightarrow> comb_args \<Rightarrow> string set option \<Rightarrow> string \<Rightarrow>
   string list \<Rightarrow> comb_state \<Rightarrow> comb_state \<times> error option" where
  "process_lines float_of_str args lookup q_clean [] st = (st, None)"
| "process_lines float_of_str args lookup q_clean (line # rest) st =
     (case motif_line args line of
        Inl e \<Rightarrow> (st, Some e)
      | Inr None \<Rightarrow> process_lines float_of_str args lookup q_clean rest st
      | Inr (Some pair) \<Rightarrow>
          process_lines float_of_str args lookup q_clean rest
            (process_pair float_of_str args lookup q_clean pair st))"

text \<open>
  The outer loop over the files. A file is its path and its lines; the query ID comes
  from the path, and a file whose query ID the lookup rejects is passed over.
\<close>

definition query_id :: "comb_args \<Rightarrow> string set option \<Rightarrow> string \<Rightarrow> string option" where
  "query_id args lookup fpath =
     (let lower_flag = \<not> no_lower args;
          q_raw = extract_query_id fpath
      in (case cleanup_id q_raw lower_flag lookup of
            Some q \<Rightarrow> Some q
          | None \<Rightarrow>
              if lookup \<noteq> None \<and> \<not> keep_nonlookup args then None
              else Some (if lower_flag then lower q_raw else q_raw)))"

fun process_files ::
  "(string \<Rightarrow> pyfloat option) \<Rightarrow> comb_args \<Rightarrow> string set option \<Rightarrow>
   (string \<times> string list) list \<Rightarrow> comb_state \<Rightarrow> comb_state \<times> error option" where
  "process_files float_of_str args lookup [] st = (st, None)"
| "process_files float_of_str args lookup ((fpath, lines) # rest) st =
     (case query_id args lookup fpath of
        None \<Rightarrow> process_files float_of_str args lookup rest st
      | Some q_clean \<Rightarrow>
          (case process_lines float_of_str args lookup q_clean lines st of
             (st', Some e) \<Rightarrow> (st', Some e)
           | (st', None) \<Rightarrow> process_files float_of_str args lookup rest st'))"

subsection \<open>\<open>main\<close>\<close>

text \<open>
  \<open>lookup_file\<close> is \<open>None\<close> without \<open>--scop-lookup\<close>, \<open>Some None\<close> when the path given
  is not a file and \<open>Some (Some lines)\<close> otherwise. \<open>files\<close> is what \<open>motif_files\<close>
  returns, each path with the lines of its file. The result is the return code, or the
  exception that ended the run, and the text the output file holds in the end, line by
  line.
\<close>

definition header_line :: string where
  "header_line = ''query_id'' @ [CHR 0x09] @ ''target_id'' @ [CHR 0x09] @ ''score'' @ [CHR 0x0A]"

text \<open>\<open>files[: args.max_files]\<close>, taken when the option is given and is not zero.\<close>

definition limit_files :: "comb_args \<Rightarrow> 'a list \<Rightarrow> 'a list" where
  "limit_files args files =
     (case max_files args of
        Some n \<Rightarrow> if n \<noteq> 0 then slice_to n files else files
      | None \<Rightarrow> files)"

definition main ::
  "(string \<Rightarrow> pyfloat option) \<Rightarrow> (pyfloat \<Rightarrow> string) \<Rightarrow> comb_args \<Rightarrow>
   string list option option \<Rightarrow> (string \<times> string list) list \<Rightarrow> (error + int) \<times> string list" where
  "main float_of_str str_of_float args lookup_file files =
     (if lookup_file = Some None then (Inr 2, [])
      else (let lookup = (case lookup_file of Some (Some lines) \<Rightarrow> Some (load_lookup lines) | _ \<Rightarrow> None);
                files = limit_files args files
            in if files = [] then (Inr 1, [])
               else (case process_files float_of_str args lookup files init_state of
                       (st, err) \<Rightarrow>
                         ((case err of Some e \<Rightarrow> Inl e | None \<Rightarrow> Inr 0),
                          (if \<not> dry_run args \<and> add_header args then [header_line] else []) @
                          map (render_triplet str_of_float) (out st)))))"

text \<open>The values \<open>argparse\<close> gives when only the required options are set.\<close>

definition default_args :: comb_args where
  "default_args =
     \<lparr>keep_nonlookup = False, no_lower = False, keep_selfhits = False, dry_run = False,
      add_header = False, score_col = 1, target_col = 0, whitespace = False, min_fields = 2,
      max_files = None\<rparr>"

subsection \<open>The records expected without a lookup set\<close>

text \<open>
  Written from the specification, not from the code: without a lookup set a line yields
  an output record when it is not blank and not a comment, has at least \<open>min-fields\<close>
  fields, both column indices select one of its fields, its score is numeric, and it is
  not a filtered self-hit. The record holds the normalized query and target IDs and the
  score. \<open>expected_records\<close> lists these records for the lines of the files, in order;
  the query ID of a file is the normalized name that \<open>extract_query_id\<close> takes from
  its path.
\<close>

definition expected_record ::
  "(string \<Rightarrow> pyfloat option) \<Rightarrow> comb_args \<Rightarrow> string \<Rightarrow> string \<Rightarrow>
   (string \<times> string \<times> pyfloat) list" where
  "expected_record float_of_str args q line =
     (let stripped = strip line; parts = line_parts args stripped
      in (case (index parts (target_col args), index parts (score_col args)) of
            (Inr target, Inr score_txt) \<Rightarrow>
              (case float_of_str score_txt of
                 Some score \<Rightarrow>
                   if stripped \<noteq> [] \<and> \<not> startswith stripped ''#'' \<and>
                      min_fields args \<le> int (length parts) \<and>
                      (keep_selfhits args \<or> q \<noteq> normalize_id target (\<not> no_lower args))
                   then [(q, normalize_id target (\<not> no_lower args), score)]
                   else []
               | None \<Rightarrow> [])
          | _ \<Rightarrow> []))"

definition expected_records ::
  "(string \<Rightarrow> pyfloat option) \<Rightarrow> comb_args \<Rightarrow> (string \<times> string list) list \<Rightarrow>
   (string \<times> string \<times> pyfloat) list" where
  "expected_records float_of_str args files =
     concat (map (\<lambda>(fpath, lines).
       concat (map (expected_record float_of_str args
                      (normalize_id (extract_query_id fpath) (\<not> no_lower args))) lines)) files)"

text \<open>
  Two stand-ins for Python's own functions, to run the model on plain decimal text.
  \<open>decimal_literal\<close> reads an optional sign, digits, and an optional point with more
  digits, and gives the value \<open>float\<close> gives on such a text; it rejects every other
  text, also those with an exponent, \<open>inf\<close>, \<open>nan\<close> or underscores, which \<open>float\<close>
  accepts. \<open>decimal_text\<close> prints the exact decimal expansion of a finite float, which
  is the text Python prints when that expansion has at most 15 significant digits and
  the value is zero or lies between \<open>0.0001\<close> and \<open>10^16\<close> in magnitude.
\<close>

definition decimal_literal :: "string \<Rightarrow> pyfloat option" where
  "decimal_literal s =
     (let t = strip s;
          neg = (t \<noteq> [] \<and> hd t = CHR ''-'');
          u = (if t \<noteq> [] \<and> (hd t = CHR ''-'' \<or> hd t = CHR ''+'') then tl t else t);
          ip = takeWhile is_digit u;
          r = dropWhile is_digit u;
          fp = (if r \<noteq> [] \<and> hd r = CHR ''.'' then takeWhile is_digit (tl r) else []);
          r' = (if r \<noteq> [] \<and> hd r = CHR ''.'' then dropWhile is_digit (tl r) else r);
          v = rat_of_nat (fst (read_digits 0 (ip @ fp))) / 10 ^ length fp
      in if r' = [] \<and> (ip \<noteq> [] \<or> fp \<noteq> []) then Some (round_binary64 (if neg then - v else v))
         else None)"

fun frac_text :: "nat \<Rightarrow> rat \<Rightarrow> string" where
  "frac_text 0 f = []"
| "frac_text (Suc n) f =
     (if f = 0 then []
      else digit_char (nat \<lfloor>10 * f\<rfloor>) # frac_text n (10 * f - of_int \<lfloor>10 * f\<rfloor>))"

definition decimal_text :: "pyfloat \<Rightarrow> string" where
  "decimal_text x =
     (case x of
        NaN \<Rightarrow> ''nan''
      | PInf \<Rightarrow> ''inf''
      | NInf \<Rightarrow> ''-inf''
      | Fin r \<Rightarrow>
          (let f = frac_text 1074 (\<bar>r\<bar> - of_int \<lfloor>\<bar>r\<bar>\<rfloor>)
           in (if r < 0 then ''-'' else []) @ str_nat (nat \<lfloor>\<bar>r\<bar>\<rfloor>) @ ''.'' @
              (if f = [] then ''0'' else f)))"

section \<open>Range collapsing can be read back\<close>

lemma digit_val_digit_char: "d < 10 \<Longrightarrow> digit_val (digit_char d) = d"
  by (simp add: digit_val_def digit_char_def ord_def)

lemma is_digit_digit_char: "d < 10 \<Longrightarrow> is_digit (digit_char d)"
  by (simp add: is_digit_def digit_char_def ord_def)

lemma str_nat_digits: "list_all is_digit (str_nat n)"
proof (induction n rule: str_nat.induct)
  case (1 n)
  show ?case
  proof (cases "n < 10")
    case True
    then show ?thesis by (subst str_nat.simps) (simp add: is_digit_digit_char)
  next
    case False
    with 1 show ?thesis by (subst str_nat.simps) (simp add: is_digit_digit_char)
  qed
qed

lemma str_nat_nonempty: "str_nat n \<noteq> []"
  by (subst str_nat.simps) simp

lemma foldl_str_nat: "foldl (\<lambda>a c. 10 * a + digit_val c) 0 (str_nat n) = n"
proof (induction n rule: str_nat.induct)
  case (1 n)
  show ?case
  proof (cases "n < 10")
    case True
    then show ?thesis by (subst str_nat.simps) (simp add: digit_val_digit_char)
  next
    case False
    with 1 show ?thesis by (subst str_nat.simps) (simp add: digit_val_digit_char)
  qed
qed

lemma read_digits_app:
  "list_all is_digit ds \<Longrightarrow>
   read_digits acc (ds @ r) = read_digits (foldl (\<lambda>a c. 10 * a + digit_val c) acc ds) r"
  by (induction ds arbitrary: acc) auto

lemma read_digits_stop: "r = [] \<or> \<not> is_digit (hd r) \<Longrightarrow> read_digits acc r = (acc, r)"
  by (cases r) auto

lemma read_nat_str_nat:
  assumes "r = [] \<or> \<not> is_digit (hd r)"
  shows "read_nat (str_nat n @ r) = Some (n, r)"
proof -
  obtain c cs where cs: "str_nat n = c # cs"
    using str_nat_nonempty by (cases "str_nat n") auto
  have "is_digit c" using str_nat_digits [of n] cs by simp
  then have "read_nat (str_nat n @ r) = Some (read_digits 0 (str_nat n @ r))"
    by (simp add: read_nat_def cs)
  also have "read_digits 0 (str_nat n @ r) = (n, r)"
    using assms by (simp add: read_digits_app str_nat_digits foldl_str_nat read_digits_stop)
  finally show ?thesis .
qed

lemma not_digit_minus: "\<not> is_digit CHR ''-''"
  by (simp add: is_digit_def ord_def)

lemma read_int_str_int:
  assumes "r = [] \<or> \<not> is_digit (hd r)"
  shows "read_int (str_int i @ r) = Some (i, r)"
proof (cases "i < 0")
  case True
  then show ?thesis
    using assms by (simp add: read_int_def str_int_def read_nat_str_nat)
next
  case False
  obtain c cs where cs: "str_nat (nat i) = c # cs"
    using str_nat_nonempty by (cases "str_nat (nat i)") auto
  have "is_digit c" using str_nat_digits [of "nat i"] cs by simp
  then have "c \<noteq> CHR ''-''" using not_digit_minus by auto
  then have "read_int (str_nat (nat i) @ r) =
      map_option (\<lambda>(n, r). (int n, r)) (read_nat (str_nat (nat i) @ r))"
    by (simp add: read_int_def cs)
  then show ?thesis
    using False assms by (simp add: str_int_def read_nat_str_nat)
qed

lemma expand_emit_token:
  assumes "a \<le> b"
  shows "expand_token chain (emit_token chain a b) = Some [a..b]"
proof (cases "a = b")
  case True
  have "read_int (str_int a @ []) = Some (a, [])"
    by (rule read_int_str_int) simp
  then show ?thesis using True by (simp add: expand_token_def emit_token_def)
next
  case False
  have 1: "read_int (str_int a @ CHR ''-'' # str_int b) = Some (a, CHR ''-'' # str_int b)"
    by (rule read_int_str_int) (simp add: not_digit_minus)
  have 2: "read_int (str_int b @ []) = Some (b, [])"
    by (rule read_int_str_int) simp
  show ?thesis using False 1 2 by (simp add: expand_token_def emit_token_def)
qed

lemma expand_tokens_snoc:
  "expand_tokens chain (ts @ [t]) =
     (case expand_tokens chain ts of
        None \<Rightarrow> None
      | Some ys \<Rightarrow> map_option ((@) ys) (expand_token chain t))"
proof (cases "expand_token chain t")
  case None
  then show ?thesis by (induction ts) (auto split: option.splits)
next
  case (Some zs)
  then show ?thesis by (induction ts) (auto split: option.splits)
qed

text \<open>
  The loop invariant: what the tokens emitted so far expand to, then the current run
  \<open>start..prev\<close>, then the indices still to come.
\<close>

lemma expand_collapse_loop:
  "start \<le> prev \<Longrightarrow>
   expand_tokens chain (collapse_loop chain start prev tokens xs) =
     map_option (\<lambda>ys. ys @ [start..prev] @ xs) (expand_tokens chain tokens)"
proof (induction xs arbitrary: start prev tokens)
  case Nil
  then show ?case
    by (simp add: expand_tokens_snoc expand_emit_token split: option.splits)
next
  case (Cons x xs)
  show ?case
  proof (cases "x = prev + 1")
    case True
    have "[start..prev + 1] = [start..prev] @ [prev + 1]"
      using Cons.prems by (simp add: upto_rec2)
    then show ?thesis
      using True Cons.IH [of start x tokens] Cons.prems
      by (simp add: option.map_comp comp_def)
  next
    case False
    then show ?thesis
      using Cons.IH [of x x "tokens @ [emit_token chain start prev]"] Cons.prems
      by (simp add: expand_tokens_snoc expand_emit_token split: option.splits)
  qed
qed

text \<open>
  C3. For every chain label and every list of indices, reading back the tokens that
  \<open>collapse_ranges\<close> emits succeeds and gives exactly the indices of the input, each
  once, in ascending order.
\<close>

theorem collapse_ranges_roundtrip:
  "expand_tokens chain (collapse_ranges chain indices) = Some (sorted_list_of_set (set indices))"
proof (cases "sort (remdups indices)")
  case Nil
  then have "set indices = {}"
    by (metis set_empty set_remdups set_sort)
  then show ?thesis by (simp add: collapse_ranges_def)
next
  case (Cons i0 rest)
  then have ne: "indices \<noteq> []" by auto
  have "expand_tokens chain (collapse_loop chain i0 i0 [] rest) = Some (i0 # rest)"
    by (simp add: expand_collapse_loop)
  then show ?thesis
    using Cons ne by (simp add: collapse_ranges_def sorted_list_of_set_sort_remdups)
qed

theorem collapse_ranges_roundtrip_witness:
  "collapse_ranges ''A'' [5, 3, 4, 9, 3, 1] = [''A1'', ''A3-5'', ''A9''] \<and>
   expand_tokens ''A'' [''A1'', ''A3-5'', ''A9''] = Some [1, 3, 4, 5, 9]"
proof -
  have c: "collapse_ranges ''A'' [5, 3, 4, 9, 3, 1] = [''A1'', ''A3-5'', ''A9'']"
    by code_simp
  have s: "sorted_list_of_set (set [5, 3, 4, 9, 3, 1 :: int]) = [1, 3, 4, 5, 9]"
    by code_simp
  show ?thesis
    using collapse_ranges_roundtrip [of "''A''" "[5, 3, 4, 9, 3, 1]"] c s by simp
qed

section \<open>Selection of the top residues\<close>

lemma map_fst_enumerate_from: "map fst (enumerate_from i xs) = [i..i + int (length xs) - 1]"
proof (induction xs arbitrary: i)
  case Nil
  then show ?case by simp
next
  case (Cons x xs)
  have "[i..i + int (length (x # xs)) - 1] = i # [i + 1..i + 1 + int (length xs) - 1]"
    by (subst upto_rec1) (simp_all add: algebra_simps)
  then show ?case using Cons.IH [of "i + 1"] by simp
qed

lemma length_enumerate_from: "length (enumerate_from i xs) = length xs"
  by (induction xs arbitrary: i) auto

lemma length_insort_desc: "length (insort_desc t us) = Suc (length us)"
  by (induction us) auto

lemma set_insort_desc: "set (insort_desc t us) = insert t (set us)"
  by (induction us) auto

lemma distinct_insort_desc:
  "distinct (map fst (insort_desc t us)) \<longleftrightarrow> fst t \<notin> fst ` set us \<and> distinct (map fst us)"
  by (induction us) (auto simp: set_insort_desc)

lemma length_sort_desc: "length (sort_desc ts) = length ts"
  unfolding sort_desc_def by (induction ts) (auto simp: length_insort_desc)

lemma set_sort_desc: "set (sort_desc ts) = set ts"
  unfolding sort_desc_def by (induction ts) (auto simp: set_insort_desc)

lemma distinct_sort_desc: "distinct (map fst (sort_desc ts)) \<longleftrightarrow> distinct (map fst ts)"
  unfolding sort_desc_def
proof (induction ts)
  case Nil
  then show ?case by simp
next
  case (Cons t ts)
  have "set (foldr insort_desc ts []) = set ts"
    using set_sort_desc [of ts] by (simp add: sort_desc_def)
  then show ?case using Cons by (simp add: distinct_insort_desc)
qed

lemma slice_to_take: "\<exists>m. slice_to k xs = take m xs"
  unfolding slice_to_def by (metis take0)

lemma length_slice_to_nonneg: "0 \<le> k \<Longrightarrow> int (length (slice_to k xs)) = min (int (length xs)) k"
  by (auto simp: slice_to_def min_def)

lemma map_fst_indexed: "map fst (indexed scores) = [1..int (length scores)]"
proof -
  have "map fst (indexed scores) = map fst (enumerate_from 1 scores)"
    by (simp add: indexed_def comp_def case_prod_unfold)
  then show ?thesis by (simp add: map_fst_enumerate_from)
qed

lemma length_indexed: "length (indexed scores) = length scores"
  by (simp add: indexed_def length_enumerate_from)

lemma ranked_props:
  "length (sort_desc (indexed scores)) = length scores"
  "distinct (map fst (sort_desc (indexed scores)))"
  "set (map fst (sort_desc (indexed scores))) = {1..int (length scores)}"
proof -
  show "length (sort_desc (indexed scores)) = length scores"
    by (simp add: length_sort_desc length_indexed)
  have "distinct (map fst (indexed scores))" by (simp only: map_fst_indexed distinct_upto)
  then show "distinct (map fst (sort_desc (indexed scores)))"
    by (simp only: distinct_sort_desc)
  have "set (map fst (sort_desc (indexed scores))) = set (map fst (indexed scores))"
    by (simp add: set_sort_desc)
  also have "\<dots> = {1..int (length scores)}" by (simp only: map_fst_indexed set_upto)
  finally show "set (map fst (sort_desc (indexed scores))) = {1..int (length scores)}" .
qed

lemma select_indices_unfold:
  "select_indices scores pct min_res =
     (if scores = [] then Inr []
      else (case ceil_count (length scores) pct of
              Inl e \<Rightarrow> Inl e
            | Inr c \<Rightarrow> Inr (map fst (slice_to (max min_res c) (sort_desc (indexed scores))))))"
proof -
  have "indexed scores = [] \<longleftrightarrow> scores = []"
    using length_indexed [of scores] by (metis length_0_conv)
  then show ?thesis
    by (simp add: select_indices_def Let_def length_indexed split: sum.splits)
qed

lemma select_indices_props:
  assumes "select_indices scores pct min_res = Inr sel"
  shows "distinct sel" and "length sel \<le> length scores"
    and "set sel \<subseteq> {1..int (length scores)}"
proof -
  obtain m where sel: "sel = map fst (take m (sort_desc (indexed scores)))"
  proof (cases "scores = []")
    case True
    then have "sel = map fst (take 0 (sort_desc (indexed scores)))"
      using assms by (simp add: select_indices_unfold)
    then show ?thesis using that by blast
  next
    case False
    then obtain c where "sel = map fst (slice_to (max min_res c) (sort_desc (indexed scores)))"
      using assms by (auto simp: select_indices_unfold split: sum.splits)
    then show ?thesis
      using that slice_to_take [of "max min_res c" "sort_desc (indexed scores)"] by metis
  qed
  have t: "sel = take m (map fst (sort_desc (indexed scores)))" by (simp add: sel take_map)
  show "distinct sel" unfolding t using ranked_props(2) by (rule distinct_take)
  show "length sel \<le> length scores" by (simp add: sel ranked_props(1))
  have "set sel \<subseteq> set (map fst (sort_desc (indexed scores)))" unfolding t by (rule set_take_subset)
  then show "set sel \<subseteq> {1..int (length scores)}" by (simp only: ranked_props(3))
qed

lemma select_indices_length:
  assumes "ceil_count (length scores) pct = Inr c" and "0 \<le> max min_res c"
  shows "\<exists>sel. select_indices scores pct min_res = Inr sel \<and>
           int (length sel) = min (int (length scores)) (max min_res c)"
proof (cases "scores = []")
  case True
  then show ?thesis using assms(2) by (simp add: select_indices_unfold)
next
  case False
  then show ?thesis
    using assms by (simp add: select_indices_unfold length_slice_to_nonneg ranked_props(1))
qed

section \<open>Rounding to binary64\<close>

lemma ilog2_bounds:
  assumes "0 < r"
  shows "2 powi (ilog2 r) \<le> r" and "r < 2 powi (ilog2 r + 1)"
proof -
  obtain p q where pq: "quotient_of r = (p, q)" by (cases "quotient_of r")
  have q: "0 < q" using pq by (rule quotient_of_denom_pos)
  have r: "r = of_int p / of_int q" using pq by (rule quotient_of_div)
  have p: "0 < p" using assms q r by (simp add: zero_less_divide_iff)
  define d where "d = bitlen p - bitlen q"
  have bp: "2 ^ nat (bitlen p - 1) \<le> p" "p < 2 ^ nat (bitlen p)"
    using bitlen_bounds [OF p] by auto
  have bq: "2 ^ nat (bitlen q - 1) \<le> q" "q < 2 ^ nat (bitlen q)"
    using bitlen_bounds [OF q] by auto
  have p1: "1 \<le> bitlen p" using p by (simp add: bitlen_alt_def)
  have q1: "1 \<le> bitlen q" using q by (simp add: bitlen_alt_def)
  have rp: "(2::rat) powi (bitlen p - 1) \<le> of_int p"
  proof -
    have "(2::rat) powi (bitlen p - 1) = of_int (2 ^ nat (bitlen p - 1))"
      using p1 by (simp add: power_int_def)
    also have "\<dots> \<le> of_int p" using bp(1) by (simp only: of_int_le_iff)
    finally show ?thesis .
  qed
  have rp2: "of_int p < (2::rat) powi (bitlen p)"
  proof -
    have "(of_int p :: rat) < of_int (2 ^ nat (bitlen p))" using bp(2) by (simp only: of_int_less_iff)
    also have "\<dots> = (2::rat) powi (bitlen p)" using p1 by (simp add: power_int_def)
    finally show ?thesis .
  qed
  have rq: "(2::rat) powi (bitlen q - 1) \<le> of_int q"
  proof -
    have "(2::rat) powi (bitlen q - 1) = of_int (2 ^ nat (bitlen q - 1))"
      using q1 by (simp add: power_int_def)
    also have "\<dots> \<le> of_int q" using bq(1) by (simp only: of_int_le_iff)
    finally show ?thesis .
  qed
  have rq2: "of_int q < (2::rat) powi (bitlen q)"
  proof -
    have "(of_int q :: rat) < of_int (2 ^ nat (bitlen q))" using bq(2) by (simp only: of_int_less_iff)
    also have "\<dots> = (2::rat) powi (bitlen q)" using q1 by (simp add: power_int_def)
    finally show ?thesis .
  qed
  have qpos: "(0::rat) < of_int q" using q by simp
  have lo: "(2::rat) powi (d - 1) < r"
  proof -
    have "(2::rat) powi (d - 1) * of_int q < 2 powi (d - 1) * 2 powi (bitlen q)"
      using rq2 by (simp add: mult_strict_left_mono)
    also have "\<dots> = 2 powi (bitlen p - 1)"
      by (simp add: d_def power_int_add [symmetric])
    also have "\<dots> \<le> of_int p" by (rule rp)
    finally show ?thesis using qpos by (simp add: r pos_less_divide_eq)
  qed
  have hi: "r < (2::rat) powi (d + 1)"
  proof -
    have "of_int p < (2::rat) powi (bitlen p)" by (rule rp2)
    also have "\<dots> = 2 powi (d + 1) * 2 powi (bitlen q - 1)"
      by (simp add: d_def power_int_add [symmetric])
    also have "\<dots> \<le> 2 powi (d + 1) * of_int q"
      using rq by (simp add: mult_left_mono)
    finally show ?thesis using qpos by (simp add: r pos_divide_less_eq)
  qed
  have il: "ilog2 r = (if 2 powi d \<le> r then d else d - 1)"
    by (simp add: ilog2_def pq d_def)
  show "2 powi (ilog2 r) \<le> r" using lo by (simp add: il)
  show "r < 2 powi (ilog2 r + 1)" using hi by (auto simp: il not_le)
qed

lemma round_half_even_bounds: "\<lfloor>r\<rfloor> \<le> round_half_even r" "round_half_even r \<le> \<lfloor>r\<rfloor> + 1"
  by (simp_all add: round_half_even_def Let_def)

lemma round_half_even_ge:
  assumes "of_int n \<le> r"
  shows "n \<le> round_half_even r"
proof -
  have "n \<le> \<lfloor>r\<rfloor>" using assms by (simp add: le_floor_iff)
  then show ?thesis using round_half_even_bounds(1) [of r] by linarith
qed

lemma round_half_even_le:
  assumes "r \<le> of_int n"
  shows "round_half_even r \<le> n"
proof (cases "r = of_int n")
  case True
  then show ?thesis by (simp add: round_half_even_def)
next
  case False
  then have "r < of_int n" using assms by simp
  then have "\<lfloor>r\<rfloor> < n" by (simp add: floor_less_iff)
  then show ?thesis using round_half_even_bounds(2) [of r] by linarith
qed

lemma pow2_exp_le:
  assumes "(2::rat) powi a < 2 powi b"
  shows "a < b"
proof (rule ccontr)
  assume "\<not> a < b"
  then have "b \<le> a" by simp
  then have "(2::rat) powi b \<le> 2 powi a" by (rule power_int_increasing) simp
  then show False using assms by simp
qed

text \<open>
  A positive number in the normal range rounds to a finite float, and a power of two
  below it stays below the rounded value.
\<close>

lemma round_binary64_lower:
  assumes lo: "2 powi j \<le> x" and j: "- 1022 \<le> j" and hi: "x < 2 powi k" and k: "k \<le> 1023"
  shows "\<exists>y. round_binary64 x = Fin y \<and> 2 powi j \<le> y \<and> y \<le> 2 powi k"
proof -
  have xpos: "0 < x"
  proof -
    have "(0::rat) < 2 powi j" by simp
    then show ?thesis using lo by (rule less_le_trans)
  qed
  define e where "e = ilog2 x"
  have e1: "2 powi e \<le> x" and e2: "x < 2 powi (e + 1)"
    using ilog2_bounds [OF xpos] by (simp_all add: e_def)
  have je: "j \<le> e"
  proof -
    have "(2::rat) powi j < 2 powi (e + 1)" using lo e2 by (rule le_less_trans)
    then have "j < e + 1" by (rule pow2_exp_le)
    then show ?thesis by simp
  qed
  have e_k: "e + 1 \<le> k"
  proof -
    have "(2::rat) powi e < 2 powi k" using e1 hi by (rule le_less_trans)
    then have "e < k" by (rule pow2_exp_le)
    then show ?thesis by simp
  qed
  have e_hi: "e + 1 \<le> 1023" using e_k k by simp
  define u :: rat where "u = 2 powi (e - 52)"
  have upos: "0 < u" by (simp add: u_def)
  have "max (e - 52) (- 1074) = e - 52" using j je by linarith
  then have ulp: "ulp x = u"
    using xpos by (simp add: ulp_def u_def e_def [symmetric])
  have pe: "(2::rat) powi e = 2 ^ 52 * u"
  proof -
    have "(2::rat) powi (52 + (e - 52)) = 2 powi 52 * 2 powi (e - 52)"
      by (rule power_int_add) simp
    moreover have "52 + (e - 52) = e" by simp
    ultimately have "(2::rat) powi e = 2 powi 52 * 2 powi (e - 52)" by (simp only:)
    then show ?thesis by (simp add: u_def)
  qed
  have pe1: "(2::rat) powi (e + 1) = 2 ^ 53 * u"
  proof -
    have "(2::rat) powi (53 + (e - 52)) = 2 powi 53 * 2 powi (e - 52)"
      by (rule power_int_add) simp
    moreover have "53 + (e - 52) = e + 1" by simp
    ultimately have "(2::rat) powi (e + 1) = 2 powi 53 * 2 powi (e - 52)" by (simp only:)
    then show ?thesis by (simp add: u_def)
  qed
  define m where "m = round_half_even (x / u)"
  have "of_int (2 ^ 52) \<le> x / u"
    using e1 upos by (simp add: pe pos_le_divide_eq)
  then have m_lo: "2 ^ 52 \<le> m" unfolding m_def by (rule round_half_even_ge)
  have "x / u \<le> of_int (2 ^ 53)"
    using e2 upos by (simp add: pe1 pos_divide_le_eq)
  then have m_hi: "m \<le> 2 ^ 53" unfolding m_def by (rule round_half_even_le)
  define y where "y = of_int m * u"
  have y_lo: "2 powi e \<le> y"
  proof -
    have "(2::rat) ^ 52 \<le> of_int m" using m_lo by (metis of_int_le_iff of_int_numeral of_int_power)
    then show ?thesis using upos by (simp add: pe y_def mult_right_mono)
  qed
  have y_hi: "y \<le> 2 powi (e + 1)"
  proof -
    have "of_int m \<le> (2::rat) ^ 53" using m_hi by (metis of_int_le_iff of_int_numeral of_int_power)
    then show ?thesis using upos by (simp add: pe1 y_def mult_right_mono)
  qed
  have "(2::rat) powi (e + 1) \<le> 2 powi 1023" using e_hi by (rule power_int_increasing) simp
  also have "\<dots> < 2 powi 1024" by (rule power_int_strict_increasing) simp_all
  finally have top: "y < 2 ^ 1024" using y_hi by simp
  have ypos: "0 < y"
  proof -
    have "(0::rat) < 2 powi e" by simp
    then show ?thesis using y_lo by (rule less_le_trans)
  qed
  have "ilog2 \<bar>y\<bar> < 1024"
  proof -
    have "2 powi (ilog2 y) \<le> y" using ypos by (rule ilog2_bounds(1))
    also have "y < 2 powi 1024" using top by simp
    finally have "ilog2 y < 1024" by (rule pow2_exp_le)
    then show ?thesis using ypos by simp
  qed
  then have "round_binary64 x = Fin y"
    using xpos by (simp add: round_binary64_def ulp m_def [symmetric] y_def [symmetric] Let_def)
  moreover have "2 powi j \<le> y"
  proof -
    have "(2::rat) powi j \<le> 2 powi e" using je by (rule power_int_increasing) simp
    then show ?thesis using y_lo by (rule order_trans)
  qed
  moreover have "y \<le> 2 powi k"
  proof -
    have "(2::rat) powi (e + 1) \<le> 2 powi k" using e_k by (rule power_int_increasing) simp
    with y_hi show ?thesis by (rule order_trans)
  qed
  ultimately show ?thesis by blast
qed

lemma div_100_fifty: "div_100 (Fin 50) = Fin (1 / 2)"
  by code_simp

text \<open>At 50 percent a non-empty row of any realistic length gets a count of at least one.\<close>

lemma ceil_count_fifty:
  assumes "1 \<le> n" and "n < 2 ^ 63"
  shows "\<exists>c. ceil_count n (Fin 50) = Inr c \<and> 1 \<le> c"
proof -
  have "2 powi 0 \<le> rat_of_int (int n)" using assms(1) by simp
  moreover have "rat_of_int (int n) < 2 powi 63"
  proof -
    have "int n < 2 ^ 63" using assms(2) by (metis of_nat_less_iff of_nat_numeral of_nat_power)
    then have "rat_of_int (int n) < of_int (2 ^ 63)" by (simp only: of_int_less_iff)
    then show ?thesis by simp
  qed
  ultimately obtain a where a: "round_binary64 (of_int (int n)) = Fin a" "2 powi 0 \<le> a" "a \<le> 2 powi 63"
    using round_binary64_lower [of 0 "of_int (int n)" 63] by auto
  have "2 powi (- 1) \<le> a / 2" using a(2) by (simp add: power_int_minus)
  moreover have "a / 2 < 2 powi 63" using a(3) by simp
  ultimately obtain y where y: "round_binary64 (a / 2) = Fin y" "2 powi (- 1) \<le> y"
    using round_binary64_lower [of "- 1" "a / 2" 63] by auto
  have "0 < y"
  proof -
    have "(0::rat) < 2 powi (- 1)" by simp
    then show ?thesis using y(2) by (rule less_le_trans)
  qed
  then have c: "1 \<le> \<lceil>y\<rceil>" by simp
  have a': "round_binary64 (rat_of_nat n) = Fin a" using a(1) by simp
  show ?thesis
    using c by (simp add: ceil_count_def float_of_int_def a' div_100_fifty float_mul_def y(1) math_ceil_def)
qed

section \<open>The number of selected indices\<close>

text \<open>
  The product is not always exact: for a row of 100 scores and 7 percent the code
  computes \<open>100 * 0.07 = 7.000000000000001\<close> and so a count of 8.
\<close>

lemma ceil_count_inexact_example:
  "ceil_count 100 (Fin 7) = Inr 8 \<and> \<lceil>rat_of_nat 100 * 7 / 100\<rceil> = 7"
proof -
  have "ceil_count 100 (Fin 7) = Inr 8" by code_simp
  then show ?thesis by simp
qed

text \<open>
  C1, as amended. Whenever the count \<open>max(min_residues, ceil(N*P/100))\<close> is not
  negative and the double-precision evaluation of the ceiling gives the exact
  \<open>ceil(N*P/100)\<close>, \<open>select_indices\<close> returns \<open>min(N, max(min_residues, ceil(N*P/100)))\<close>
  indices, each of them in \<open>[1, N]\<close>.
\<close>

theorem select_indices_count:
  assumes "ceil_count (length scores) (Fin p) = Inr \<lceil>rat_of_nat (length scores) * p / 100\<rceil>"
    and "0 \<le> max min_res \<lceil>rat_of_nat (length scores) * p / 100\<rceil>"
  shows "\<exists>sel. select_indices scores (Fin p) min_res = Inr sel \<and>
           int (length sel) = min (int (length scores)) (max min_res \<lceil>rat_of_nat (length scores) * p / 100\<rceil>) \<and>
           (\<forall>i \<in> set sel. 1 \<le> i \<and> i \<le> int (length scores))"
proof -
  obtain sel where sel: "select_indices scores (Fin p) min_res = Inr sel"
    "int (length sel) = min (int (length scores)) (max min_res \<lceil>rat_of_nat (length scores) * p / 100\<rceil>)"
    using select_indices_length [OF assms] by blast
  have "set sel \<subseteq> {1..int (length scores)}" using sel(1) by (rule select_indices_props(3))
  then have "\<forall>i \<in> set sel. 1 \<le> i \<and> i \<le> int (length scores)" by auto
  with sel show ?thesis by blast
qed

theorem select_indices_count_witness:
  "ceil_count 4 (Fin 50) = Inr \<lceil>rat_of_nat 4 * 50 / 100\<rceil> \<and>
   select_indices [Fin 1, Fin 5, NaN, Fin 5] (Fin 50) 1 = Inr [2, 4] \<and>
   int (length [2, 4 :: int]) = min 4 (max 1 \<lceil>rat_of_nat 4 * 50 / 100\<rceil>)"
proof -
  have c: "ceil_count 4 (Fin 50) = Inr 2" by code_simp
  have e: "\<lceil>rat_of_nat 4 * 50 / 100\<rceil> = 2" by simp
  have l: "length [Fin 1, Fin 5, NaN, Fin 5] = 4" by simp
  have h1: "ceil_count (length [Fin 1, Fin 5, NaN, Fin 5]) (Fin 50) =
      Inr \<lceil>rat_of_nat (length [Fin 1, Fin 5, NaN, Fin 5]) * 50 / 100\<rceil>"
    by (simp only: l c e)
  have h2: "0 \<le> max 1 \<lceil>rat_of_nat (length [Fin 1, Fin 5, NaN, Fin 5]) * 50 / 100\<rceil>"
    by simp
  have v: "select_indices [Fin 1, Fin 5, NaN, Fin 5] (Fin 50) 1 = Inr [2, 4]"
    by code_simp
  from select_indices_count [OF h1 h2] v c e show ?thesis by simp
qed

text \<open>
  C1 as stated fails when the count exceeds the length of the row: one score, 5 percent
  and a floor of 2 give one index, not \<open>max(2, ceil(0.05)) = 2\<close>.
\<close>

theorem select_indices_count_counterexample:
  "select_indices [Fin 1] (Fin 5) 2 = Inr [1] \<and>
   int (length [1 :: int]) \<noteq> max 2 \<lceil>rat_of_nat (length [Fin 1]) * 5 / 100\<rceil>"
proof -
  have "select_indices [Fin 1] (Fin 5) 2 = Inr [1]" by code_simp
  moreover have "\<lceil>(1::rat) / 20\<rceil> = 1" by (simp add: ceiling_eq_iff)
  ultimately show ?thesis by simp
qed

text \<open>
  C9, as amended. Every result of \<open>select_indices\<close> has pairwise distinct indices and
  at most \<open>N\<close> of them. Whenever the count \<open>max(min_residues, ceil(N*percent/100))\<close> is
  not negative and the double-precision evaluation of the ceiling gives the exact
  \<open>ceil(N*percent/100)\<close>, the result has exactly
  \<open>min(N, max(min_residues, ceil(N*percent/100)))\<close> indices. When \<open>min_residues\<close> exceeds
  \<open>N\<close> and the ceiling can be computed at all, exactly \<open>N\<close> indices are returned.
\<close>

theorem select_indices_distinct_capped:
  "(\<forall>sel. select_indices scores (Fin p) min_res = Inr sel \<longrightarrow>
          distinct sel \<and> length sel \<le> length scores) \<and>
   (ceil_count (length scores) (Fin p) = Inr \<lceil>rat_of_nat (length scores) * p / 100\<rceil> \<and>
    0 \<le> max min_res \<lceil>rat_of_nat (length scores) * p / 100\<rceil> \<longrightarrow>
      (\<exists>sel. select_indices scores (Fin p) min_res = Inr sel \<and>
             int (length sel) =
               min (int (length scores)) (max min_res \<lceil>rat_of_nat (length scores) * p / 100\<rceil>))) \<and>
   (\<forall>c. ceil_count (length scores) (Fin p) = Inr c \<and> int (length scores) < min_res \<longrightarrow>
        (\<exists>sel. select_indices scores (Fin p) min_res = Inr sel \<and> length sel = length scores))"
proof (intro conjI allI impI)
  fix sel
  assume "select_indices scores (Fin p) min_res = Inr sel"
  then show "distinct sel" and "length sel \<le> length scores"
    by (rule select_indices_props(1), rule select_indices_props(2))
next
  assume "ceil_count (length scores) (Fin p) = Inr \<lceil>rat_of_nat (length scores) * p / 100\<rceil> \<and>
    0 \<le> max min_res \<lceil>rat_of_nat (length scores) * p / 100\<rceil>"
  then show "\<exists>sel. select_indices scores (Fin p) min_res = Inr sel \<and>
      int (length sel) =
        min (int (length scores)) (max min_res \<lceil>rat_of_nat (length scores) * p / 100\<rceil>)"
    using select_indices_length by blast
next
  fix c
  assume a: "ceil_count (length scores) (Fin p) = Inr c \<and> int (length scores) < min_res"
  then have k: "0 \<le> max min_res c" by linarith
  obtain sel where sel: "select_indices scores (Fin p) min_res = Inr sel"
    "int (length sel) = min (int (length scores)) (max min_res c)"
    using select_indices_length [of scores "Fin p" c min_res] a k by blast
  have "length sel = length scores" using sel(2) a by auto
  with sel(1) show "\<exists>sel. select_indices scores (Fin p) min_res = Inr sel \<and> length sel = length scores"
    by blast
qed

theorem select_indices_distinct_capped_witness:
  "ceil_count 3 (Fin 50) = Inr \<lceil>rat_of_nat 3 * 50 / 100\<rceil> \<and>
   select_indices [Fin 2, Fin 9, Fin 4] (Fin 50) 7 = Inr [2, 3, 1] \<and>
   distinct [2, 3, 1 :: int] \<and>
   int (length [2, 3, 1 :: int]) = min 3 (max 7 \<lceil>rat_of_nat 3 * 50 / 100\<rceil>) \<and>
   length [2, 3, 1 :: int] = length [Fin 2, Fin 9, Fin 4]"
proof -
  have c: "ceil_count 3 (Fin 50) = Inr 2" by code_simp
  have e: "\<lceil>rat_of_nat 3 * 50 / 100\<rceil> = 2" by (simp add: ceiling_eq_iff)
  have l: "length [Fin 2, Fin 9, Fin 4] = 3" by simp
  have v: "select_indices [Fin 2, Fin 9, Fin 4] (Fin 50) 7 = Inr [2, 3, 1]"
    by code_simp
  have h: "ceil_count (length [Fin 2, Fin 9, Fin 4]) (Fin 50) =
      Inr \<lceil>rat_of_nat (length [Fin 2, Fin 9, Fin 4]) * 50 / 100\<rceil>"
    by (simp only: l c e)
  have k: "0 \<le> max 7 \<lceil>rat_of_nat (length [Fin 2, Fin 9, Fin 4]) * 50 / 100\<rceil>"
    by simp
  have n: "int (length [Fin 2, Fin 9, Fin 4]) < 7" by simp
  note t = select_indices_distinct_capped [of "[Fin 2, Fin 9, Fin 4]" 50 7]
  have d: "distinct [2, 3, 1 :: int]" using t v by blast
  have "\<exists>sel. select_indices [Fin 2, Fin 9, Fin 4] (Fin 50) 7 = Inr sel \<and>
      int (length sel) = min (int (length [Fin 2, Fin 9, Fin 4]))
        (max 7 \<lceil>rat_of_nat (length [Fin 2, Fin 9, Fin 4]) * 50 / 100\<rceil>)"
    using t h k by blast
  then have m: "int (length [2, 3, 1 :: int]) = min 3 (max 7 \<lceil>rat_of_nat 3 * 50 / 100\<rceil>)"
    using v by (auto simp: l)
  have "\<exists>sel. select_indices [Fin 2, Fin 9, Fin 4] (Fin 50) 7 = Inr sel \<and>
      length sel = length [Fin 2, Fin 9, Fin 4]"
    using t h n by blast
  then have "length [2, 3, 1 :: int] = length [Fin 2, Fin 9, Fin 4]" using v by auto
  with c e v d m show ?thesis by (simp only: simp_thms)
qed

text \<open>
  C9 as stated fails for a negative count: with \<open>min_residues = -1\<close> and \<open>-50\<close> percent
  on four scores the slice \<open>indexed[:-1]\<close> keeps three indices, while
  \<open>min(4, max(-1, ceil(-2))) = -1\<close>.
\<close>

theorem select_indices_negative_counterexample:
  "select_indices [Fin 1, Fin 2, Fin 3, Fin 4] (Fin (- 50)) (- 1) = Inr [4, 3, 2] \<and>
   int (length [4, 3, 2 :: int]) \<noteq>
     min (int (length [Fin 1, Fin 2, Fin 3, Fin 4]))
         (max (- 1) \<lceil>rat_of_nat (length [Fin 1, Fin 2, Fin 3, Fin 4]) * (- 50) / 100\<rceil>)"
proof -
  have "select_indices [Fin 1, Fin 2, Fin 3, Fin 4] (Fin (- 50)) (- 1) = Inr [4, 3, 2]"
    by code_simp
  then show ?thesis by simp
qed

section \<open>Merging the chains of one base identifier\<close>

lemma select_indices_fifty:
  assumes "scores \<noteq> []" and "length scores < 2 ^ 63"
  shows "\<exists>sel. select_indices scores (Fin 50) min_res = Inr sel \<and> sel \<noteq> []"
proof -
  have "1 \<le> length scores" using assms(1) by (cases scores) auto
  then obtain c where c: "ceil_count (length scores) (Fin 50) = Inr c" "1 \<le> c"
    using ceil_count_fifty assms(2) by blast
  have k: "0 \<le> max min_res c" "1 \<le> max min_res c" using c(2) by auto
  obtain sel where sel: "select_indices scores (Fin 50) min_res = Inr sel"
    "int (length sel) = min (int (length scores)) (max min_res c)"
    using select_indices_length [OF c(1) k(1)] by blast
  have "1 \<le> int (length sel)" using sel(2) k(2) \<open>1 \<le> length scores\<close> by simp
  then have "sel \<noteq> []" by auto
  with sel(1) show ?thesis by blast
qed

lemma twfa_ids:
  "base_id ''d1twfa__A'' = ''d1twfa_''" "base_id ''d1twfa__B'' = ''d1twfa_''"
  "extract_chain ''d1twfa__A'' = ''A''" "extract_chain ''d1twfa__B'' = ''B''"
  by code_simp+

text \<open>
  C2, as amended. In merged mode the identifiers \<open>d1twfa__A\<close> and \<open>d1twfa__B\<close> with
  non-empty score rows and 50 percent are grouped under the base identifier \<open>d1twfa_\<close>
  (the text before the last underscore) and give exactly one manifest row, whose motif
  column joins with commas the collapsed tokens of chain A followed by those of chain B.
  A row has fewer than \<open>2^63\<close> scores, as every Python list has, and
  \<open>--with-output-path\<close> comes with its \<open>--output-dir\<close>.
\<close>

theorem merged_example:
  assumes "sA \<noteq> []" and "sB \<noteq> []" and "length sA < 2 ^ 63" and "length sB < 2 ^ 63"
    and "percent args = Fin 50" and "\<not> per_chain args"
    and "with_output_path args \<longrightarrow> output_dir args \<noteq> None \<and> output_dir args \<noteq> Some []"
  shows "\<exists>selA selB.
     select_indices sA (Fin 50) (min_residues args) = Inr selA \<and>
     select_indices sB (Fin 50) (min_residues args) = Inr selB \<and>
     manifest_rows str_of_float args fs [''d1twfa__A'', ''d1twfa__B''] [sA, sB] =
       Inr [\<lparr>row_pdb = resolve_pdb_path fs (pdb_dir args) ''d1twfa_'',
             row_motif = join '','' (collapse_ranges ''A'' selA @ collapse_ranges ''B'' selB),
             row_out = out_column args (out_dir_of args ''50'') ''d1twfa_''\<rparr>]"
proof -
  obtain selA where a: "select_indices sA (Fin 50) (min_residues args) = Inr selA" "selA \<noteq> []"
    using select_indices_fifty [OF assms(1) assms(3)] by blast
  obtain selB where b: "select_indices sB (Fin 50) (min_residues args) = Inr selB" "selB \<noteq> []"
    using select_indices_fifty [OF assms(2) assms(4)] by blast
  have g: "group_chains args [] [(''d1twfa__A'', sA), (''d1twfa__B'', sB)] =
      Inr [(''d1twfa_'', [(''A'', selA), (''B'', selB)])]"
    using assms(1,2,5) a b by (simp add: twfa_ids)
  have "str_int 50 = ''50''" by code_simp
  then have p: "percent_str str_of_float (percent args) = Inr ''50''"
    by (simp add: percent_str_def assms(5))
  have "manifest_rows str_of_float args fs [''d1twfa__A'', ''d1twfa__B''] [sA, sB] =
       Inr [\<lparr>row_pdb = resolve_pdb_path fs (pdb_dir args) ''d1twfa_'',
             row_motif = join '','' (collapse_ranges ''A'' selA @ collapse_ranges ''B'' selB),
             row_out = out_column args (out_dir_of args ''50'') ''d1twfa_''\<rparr>]"
    using assms(6,7) g p by (simp add: manifest_rows_def merged_row_def)
  with a(1) b(1) show ?thesis by blast
qed

theorem merged_example_witness:
  "manifest_rows decimal_text
     \<lparr>percent = Fin 50, min_residues = 1, pdb_dir = ''pdb'', with_output_path = False,
      output_dir = None, per_chain = False\<rparr>
     \<lparr>path_exists = (\<lambda>p. p = ''pdb/d1twfa_.pdb''), glob_sorted = (\<lambda>d pat. [])\<rparr>
     [''d1twfa__A'', ''d1twfa__B''] [[Fin 1, Fin 5, Fin 4, Fin 0], [Fin 3, Fin 2]] =
   Inr [\<lparr>row_pdb = ''pdb/d1twfa_.pdb'', row_motif = ''A2-3,B1'', row_out = None\<rparr>]"
proof -
  let ?args = "\<lparr>percent = Fin 50, min_residues = 1, pdb_dir = ''pdb'', with_output_path = False,
      output_dir = None, per_chain = False\<rparr>"
  let ?fs = "\<lparr>path_exists = (\<lambda>p. p = ''pdb/d1twfa_.pdb''), glob_sorted = (\<lambda>d pat. [])\<rparr>"
  have h: "[Fin 1, Fin 5, Fin 4, Fin 0] \<noteq> []" "[Fin 3, Fin 2] \<noteq> []"
    "length [Fin 1, Fin 5, Fin 4, Fin 0] < 2 ^ 63" "length [Fin 3, Fin 2] < 2 ^ 63"
    "percent ?args = Fin 50" "\<not> per_chain ?args"
    "with_output_path ?args \<longrightarrow> output_dir ?args \<noteq> None \<and> output_dir ?args \<noteq> Some []"
    by simp_all
  have sa: "select_indices [Fin 1, Fin 5, Fin 4, Fin 0] (Fin 50) 1 = Inr [2, 3]" by code_simp
  have sb: "select_indices [Fin 3, Fin 2] (Fin 50) 1 = Inr [1]" by code_simp
  have m: "join '','' (collapse_ranges ''A'' [2, 3] @ collapse_ranges ''B'' [1]) = ''A2-3,B1''"
    by code_simp
  have p: "resolve_pdb_path ?fs ''pdb'' ''d1twfa_'' = ''pdb/d1twfa_.pdb''" by code_simp
  from merged_example [OF h, of decimal_text ?fs] sa sb m p show ?thesis
    by (auto simp: out_column_def out_dir_of_def)
qed

text \<open>
  C2 as stated names the base identifier \<open>d1twfa\<close>; the code groups under \<open>d1twfa_\<close>,
  which shows in the file names of the row.
\<close>

theorem merged_base_counterexample:
  "manifest_rows decimal_text
     \<lparr>percent = Fin 50, min_residues = 1, pdb_dir = ''pdb'', with_output_path = True,
      output_dir = Some ''out'', per_chain = False\<rparr>
     \<lparr>path_exists = (\<lambda>p. False), glob_sorted = (\<lambda>d pat. [])\<rparr>
     [''d1twfa__A'', ''d1twfa__B''] [[Fin 1, Fin 2], [Fin 3]] =
   Inr [\<lparr>row_pdb = ''pdb/d1twfa__.pdb'', row_motif = ''A2,B1'',
         row_out = Some ''out/50/d1twfa__motif.out''\<rparr>] \<and>
   base_id ''d1twfa__A'' = ''d1twfa_'' \<and> base_id ''d1twfa__A'' \<noteq> ''d1twfa''"
  by code_simp

section \<open>Identifier cleanup\<close>

lemma strip_fixed:
  assumes "x = [] \<or> (\<not> isspace (hd x) \<and> \<not> isspace (last x))"
  shows "strip x = x"
proof (cases x)
  case Nil
  then show ?thesis by (simp add: strip_def lstrip_def rstrip_def)
next
  case (Cons c cs)
  then have h: "\<not> isspace (hd x)" and l: "\<not> isspace (last x)" using assms by auto
  have 1: "dropWhile isspace x = x" using h Cons by simp
  have "x \<noteq> []" using Cons by simp
  then have "butlast x @ [last x] = x" by simp
  then have "rev (butlast x @ [last x]) = rev x" by (rule arg_cong)
  then have r: "rev x = last x # rev (butlast x)" by simp
  have "dropWhile isspace (last x # rev (butlast x)) = last x # rev (butlast x)"
    using l by simp
  then have 2: "dropWhile isspace (rev x) = rev x" by (simp only: r)
  show ?thesis by (simp add: strip_def lstrip_def rstrip_def 1 2)
qed

lemma strip_ends: "strip s = [] \<or> (\<not> isspace (hd (strip s)) \<and> \<not> isspace (last (strip s)))"
proof (cases "strip s = []")
  case True
  then show ?thesis by simp
next
  case False
  let ?l = "dropWhile isspace s"
  let ?r = "dropWhile isspace (rev ?l)"
  have s: "strip s = rev ?r" by (simp add: strip_def lstrip_def rstrip_def)
  have rne: "?r \<noteq> []" using False s by simp
  then have a: "\<not> isspace (hd ?r)" by (rule hd_dropWhile)
  have "last (strip s) = hd ?r" using rne by (simp add: s last_rev)
  then have la: "\<not> isspace (last (strip s))" using a by simp
  have lne: "?l \<noteq> []"
  proof
    assume "?l = []"
    then have "?r = []" by (simp only: rev.simps dropWhile.simps)
    with rne show False by simp
  qed
  then have b: "\<not> isspace (hd ?l)" by (rule hd_dropWhile)
  obtain ys where ys: "rev ?l = ys @ ?r" 
    by (metis takeWhile_dropWhile_id)
  then have "?l = rev ?r @ rev ys" by (metis rev_append rev_rev_ident)
  then have "hd ?l = hd (rev ?r)" using rne by (metis hd_append2 rev_is_Nil_conv)
  then have "\<not> isspace (hd (strip s))" using b s by simp
  with la show ?thesis by simp
qed

lemma strip_idem: "strip (strip s) = strip s"
  using strip_ends [of s] by (rule strip_fixed)

lemma load_lookup_loop_members:
  "x \<in> load_lookup_loop valid lines \<Longrightarrow> x \<in> valid \<or> (x \<noteq> [] \<and> strip x = x)"
proof (induction lines arbitrary: valid)
  case Nil
  then show ?case by simp
next
  case (Cons line rest)
  show ?case
  proof (cases "strip line = [] \<or> startswith line ''#''")
    case True
    then show ?thesis using Cons by auto
  next
    case False
    let ?first = "strip (split1_head (CHR 0x09) line)"
    show ?thesis
    proof (cases "?first = []")
      case True
      then show ?thesis using False Cons by (auto simp: Let_def)
    next
      case ne: False
      then have "x \<in> load_lookup_loop (insert ?first valid) rest"
        using False Cons.prems by (auto simp: Let_def)
      then have "x \<in> insert ?first valid \<or> (x \<noteq> [] \<and> strip x = x)" by (rule Cons.IH)
      then show ?thesis using ne strip_idem by auto
    qed
  qed
qed

lemma load_lookup_members: "x \<in> load_lookup lines \<Longrightarrow> x \<noteq> [] \<and> strip x = x"
  using load_lookup_loop_members [of x "{}" lines] by (simp add: load_lookup_def)

lemma strip_exts_pass_none:
  "\<forall>ext \<in> set exts. \<not> endswith (lower x) ext \<Longrightarrow> strip_exts_pass exts x d = (x, d)"
  by (induction exts) auto

lemma strip_exts_none:
  "\<forall>ext \<in> set STRUCT_EXTS. \<not> endswith (lower x) ext \<Longrightarrow> strip_exts x = x"
  by (subst strip_exts.simps) (simp add: strip_exts_pass_none)

lemma normalize_id_clean:
  assumes "strip x = x" and "CHR ''/'' \<notin> set x"
    and "\<forall>ext \<in> set STRUCT_EXTS. \<not> endswith (lower x) ext"
    and "lower_flag \<longrightarrow> lower x = x"
  shows "normalize_id x lower_flag = x"
  using assms by (simp add: normalize_id_def strip_exts_none)

text \<open>
  C4, as amended. An ID without leading or trailing whitespace that is a member of the
  lookup set, has no \<open>/\<close> in it, ends with none of the extensions \<open>.pdb\<close>, \<open>.cif\<close>,
  \<open>.ent\<close>, \<open>.gz\<close> in any letter case, and is lowercase already when lowercasing is on,
  comes back from \<open>cleanup_id\<close> unchanged; so cleaning it twice is cleaning it once.
  Every member of a set that \<open>load_lookup\<close> built is without such whitespace
  (\<open>load_lookup_members\<close>).
\<close>

theorem cleanup_id_clean_fixed:
  assumes "strip x = x" and "x \<in> valid" and "CHR ''/'' \<notin> set x"
    and "\<forall>ext \<in> set STRUCT_EXTS. \<not> endswith (lower x) ext"
    and "lower_flag \<longrightarrow> lower x = x"
  shows "cleanup_id x lower_flag (Some valid) = Some x \<and>
         Option.bind (cleanup_id x lower_flag (Some valid))
                     (\<lambda>y. cleanup_id y lower_flag (Some valid)) =
           cleanup_id x lower_flag (Some valid)"
proof -
  have "normalize_id x lower_flag = x" using assms(1,3-5) by (rule normalize_id_clean)
  then have "cleanup_id x lower_flag (Some valid) = Some x"
    using assms(2) by (simp add: cleanup_id_def)
  then show ?thesis by simp
qed

theorem cleanup_id_clean_fixed_witness:
  "strip ''d1xyz_'' = ''d1xyz_'' \<and>
   cleanup_id ''d1xyz_'' True (Some {''d1abc_'', ''d1xyz_''}) = Some ''d1xyz_''"
proof -
  have h1: "strip ''d1xyz_'' = ''d1xyz_''" by code_simp
  have h2: "''d1xyz_'' \<in> {''d1abc_'', ''d1xyz_''}" by simp
  have h3: "CHR ''/'' \<notin> set ''d1xyz_''" by simp
  have h4: "\<forall>ext \<in> set STRUCT_EXTS. \<not> endswith (lower ''d1xyz_'') ext" by code_simp
  have h5: "True \<longrightarrow> lower ''d1xyz_'' = ''d1xyz_''" by code_simp
  from cleanup_id_clean_fixed [OF h1 h2 h3 h4 h5] h1 show ?thesis by simp
qed

text \<open>
  C4 as stated fails for an ID with a leading space: \<open>cleanup_id\<close> strips it first, and
  the stripped text is not in the set.
\<close>

theorem cleanup_id_padded_counterexample:
  "CHR ''/'' \<notin> set '' a'' \<and>
   \<not> endswith (lower '' a'') ''.pdb'' \<and> \<not> endswith (lower '' a'') ''.cif'' \<and>
   \<not> endswith (lower '' a'') ''.ent'' \<and> \<not> endswith (lower '' a'') ''.gz'' \<and>
   lower '' a'' = '' a'' \<and> '' a'' \<in> {'' a''} \<and>
   cleanup_id '' a'' True (Some {'' a''}) = None"
  by code_simp

text \<open>
  C6. With a lookup set, an ID that \<open>cleanup_id\<close> returns is a member of the set and is
  the normalized input itself, or that with one underscore appended, or that with its
  trailing underscore removed; and when none of the three is in the set the result is
  \<open>None\<close>. The set is an argument that \<open>cleanup_id\<close> only tests for membership.
\<close>

theorem cleanup_id_lookup_forms:
  "(\<forall>y. cleanup_id raw lower_flag (Some valid) = Some y \<longrightarrow>
         y \<in> valid \<and>
         (y = normalize_id raw lower_flag \<or> y = normalize_id raw lower_flag @ ''_'' \<or>
          normalize_id raw lower_flag = y @ ''_'')) \<and>
   (normalize_id raw lower_flag \<notin> valid \<and> normalize_id raw lower_flag @ ''_'' \<notin> valid \<and>
    (\<forall>y. normalize_id raw lower_flag = y @ ''_'' \<longrightarrow> y \<notin> valid) \<longrightarrow>
      cleanup_id raw lower_flag (Some valid) = None)"
proof -
  let ?n = "normalize_id raw lower_flag"
  have e: "endswith ?n ''_'' \<Longrightarrow> ?n = butlast ?n @ ''_''"
  proof -
    assume "endswith ?n ''_''"
    then have len: "1 \<le> length ?n" and d: "drop (length ?n - 1) ?n = ''_''"
      by (simp_all add: endswith_def)
    have ne: "?n \<noteq> []" using len by auto
    have "last (drop (length ?n - 1) ?n) = last ?n" using len by (intro last_drop) simp
    then have "last ?n = CHR ''_''" using d by simp
    then show ?thesis using ne by (metis append_butlast_last_id)
  qed
  show ?thesis
    using e by (auto simp: cleanup_id_def Let_def split: if_splits)
qed

theorem cleanup_id_lookup_forms_witness:
  "cleanup_id ''/p/pdb/d1xyz.pdb'' True (Some {''d1xyz_''}) = Some ''d1xyz_'' \<and>
   normalize_id ''/p/pdb/d1xyz.pdb'' True @ ''_'' = ''d1xyz_'' \<and>
   cleanup_id ''D2ABC_.ent.gz'' True (Some {''d1xyz_''}) = None"
proof -
  have c: "cleanup_id ''/p/pdb/d1xyz.pdb'' True (Some {''d1xyz_''}) = Some ''d1xyz_''"
    by code_simp
  have n: "normalize_id ''/p/pdb/d1xyz.pdb'' True = ''d1xyz''"
    by code_simp
  have m: "normalize_id ''D2ABC_.ent.gz'' True = ''d2abc_''"
    by code_simp
  have out: "normalize_id ''D2ABC_.ent.gz'' True \<notin> {''d1xyz_''} \<and>
      normalize_id ''D2ABC_.ent.gz'' True @ ''_'' \<notin> {''d1xyz_''} \<and>
      (\<forall>y. normalize_id ''D2ABC_.ent.gz'' True = y @ ''_'' \<longrightarrow> y \<notin> {''d1xyz_''})"
    by (auto simp: m)
  have "cleanup_id ''D2ABC_.ent.gz'' True (Some {''d1xyz_''}) = None"
    using cleanup_id_lookup_forms [of "''D2ABC_.ent.gz''" True "{''d1xyz_''}"] out by blast
  moreover have "normalize_id ''/p/pdb/d1xyz.pdb'' True @ ''_'' = ''d1xyz_''"
    using cleanup_id_lookup_forms [of "''/p/pdb/d1xyz.pdb''" True "{''d1xyz_''}"] c n by auto
  ultimately show ?thesis using c by blast
qed

section \<open>The combined output\<close>

lemma out_process_pair:
  "out (process_pair float_of_str args lookup q pair st) =
     out st @ out (process_pair float_of_str args lookup q pair init_state)"
proof -
  obtain target_raw score_txt where p: "pair = (target_raw, score_txt)" by (cases pair)
  show ?thesis
  proof (cases "cleanup_id target_raw (\<not> no_lower args) lookup")
    case None
    then show ?thesis
      by (cases "float_of_str score_txt"; cases lookup)
         (simp_all add: p process_pair_def Let_def init_state_def split: option.splits)
  next
    case (Some t)
    then show ?thesis
      by (cases "float_of_str score_txt")
         (simp_all add: p process_pair_def Let_def init_state_def split: option.splits)
  qed
qed

lemma out_process_pair_cong:
  "out st = out st2 \<Longrightarrow>
   out (process_pair F args lookup q pair st) = out (process_pair F args lookup q pair st2)"
  using out_process_pair [of F args lookup q pair st] out_process_pair [of F args lookup q pair st2]
  by simp






lemma process_lines_frame:
  "out (fst (process_lines F args lookup q lines st)) =
     out st @ out (fst (process_lines F args lookup q lines init_state)) \<and>
   snd (process_lines F args lookup q lines st) = snd (process_lines F args lookup q lines init_state)"
proof (induction lines arbitrary: st rule: rev_induct)
  case Nil
  then show ?case by (simp add: init_state_def)
next
  case (snoc line rest)
  have app: "process_lines F args lookup q (rest @ [line]) s =
      (case process_lines F args lookup q rest s of
         (s', Some e) \<Rightarrow> (s', Some e)
       | (s', None) \<Rightarrow> process_lines F args lookup q [line] s')" for s
    by (induction rest arbitrary: s) (auto split: sum.splits option.splits prod.splits)
  obtain s1 e1 where r1: "process_lines F args lookup q rest st = (s1, e1)"
    by (cases "process_lines F args lookup q rest st")
  obtain s0 e0 where r0: "process_lines F args lookup q rest init_state = (s0, e0)"
    by (cases "process_lines F args lookup q rest init_state")
  have ih: "out s1 = out st @ out s0" "e1 = e0"
    using snoc.IH [of st] r1 r0 by simp_all
  show ?case
  proof (cases e0)
    case (Some e)
    then show ?thesis using ih r1 r0 by (simp add: app)
  next
    case None
    show ?thesis
    proof (cases "motif_line args line")
      case (Inl e)
      then show ?thesis using ih r1 r0 None by (simp add: app)
    next
      case (Inr r)
      show ?thesis
      proof (cases r)
        case None
        then show ?thesis using ih r1 r0 Inr \<open>e0 = None\<close> by (simp add: app)
      next
        case (Some pair)
        have "out (process_pair F args lookup q pair s1) =
            out st @ out (process_pair F args lookup q pair s0)"
          using out_process_pair [of F args lookup q pair s1]
            out_process_pair [of F args lookup q pair s0] ih(1) by simp
        then show ?thesis using ih r1 r0 Inr Some \<open>e0 = None\<close> by (simp add: app)
      qed
    qed
  qed
qed


lemma process_lines_append:
  "process_lines F args lookup q (pre @ post) st =
     (case process_lines F args lookup q pre st of
        (st', Some e) \<Rightarrow> (st', Some e)
      | (st', None) \<Rightarrow> process_lines F args lookup q post st')"
  by (induction pre arbitrary: st) (auto split: sum.splits option.splits prod.splits)

lemma process_lines_cong:
  assumes "out st = out st2"
  shows "out (fst (process_lines F args lookup q lines st)) =
           out (fst (process_lines F args lookup q lines st2))"
    and "snd (process_lines F args lookup q lines st) = snd (process_lines F args lookup q lines st2)"
  using process_lines_frame [of F args lookup q lines st]
    process_lines_frame [of F args lookup q lines st2] assms by simp_all

lemma process_files_cong:
  assumes "out st = out st2"
  shows "out (fst (process_files F args lookup files st)) =
           out (fst (process_files F args lookup files st2)) \<and>
         snd (process_files F args lookup files st) = snd (process_files F args lookup files st2)"
  using assms
proof (induction files arbitrary: st st2)
  case Nil
  then show ?case by simp
next
  case (Cons f rest)
  obtain fpath lines where f: "f = (fpath, lines)" by (cases f)
  show ?case
  proof (cases "query_id args lookup fpath")
    case None
    then have "process_files F args lookup (f # rest) st = process_files F args lookup rest st"
      and "process_files F args lookup (f # rest) st2 = process_files F args lookup rest st2"
      by (simp_all add: f)
    then show ?thesis using Cons.IH [OF Cons.prems] by (simp only:)
  next
    case (Some q)
    obtain s1 e1 where r1: "process_lines F args lookup q lines st = (s1, e1)"
      by (cases "process_lines F args lookup q lines st")
    obtain s2 e2 where r2: "process_lines F args lookup q lines st2 = (s2, e2)"
      by (cases "process_lines F args lookup q lines st2")
    have o: "out s1 = out s2"
      using process_lines_cong(1) [OF Cons.prems, of F args lookup q lines] by (simp add: r1 r2)
    have e: "e1 = e2"
      using process_lines_cong(2) [OF Cons.prems, of F args lookup q lines] by (simp add: r1 r2)
    show ?thesis
    proof (cases e2)
      case None
      have "process_files F args lookup (f # rest) st = process_files F args lookup rest s1"
        and "process_files F args lookup (f # rest) st2 = process_files F args lookup rest s2"
        by (simp_all add: f Some r1 r2 e None)
      then show ?thesis using Cons.IH [OF o] by (simp only:)
    next
      case (Some x)
      have "process_files F args lookup (f # rest) st = (s1, Some x)"
        and "process_files F args lookup (f # rest) st2 = (s2, Some x)"
        by (simp_all add: f \<open>query_id args lookup fpath = Some q\<close> r1 r2 e Some)
      then show ?thesis using o by simp
    qed
  qed
qed

lemma process_pair_bad_score:
  "float_of_str score_txt = None \<Longrightarrow>
   out (process_pair float_of_str args lookup q (target_raw, score_txt) st) = out st"
  by (simp add: process_pair_def Let_def)

lemma process_lines_bad_score:
  assumes "motif_line args line = Inr (Some (target_raw, score_txt))"
    and "float_of_str score_txt = None"
  shows "out (fst (process_lines float_of_str args lookup q (pre @ line # post) st)) =
           out (fst (process_lines float_of_str args lookup q (pre @ post) st))"
    and "snd (process_lines float_of_str args lookup q (pre @ line # post) st) =
           snd (process_lines float_of_str args lookup q (pre @ post) st)"
proof -
  obtain s1 e1 where r1: "process_lines float_of_str args lookup q pre st = (s1, e1)"
    by (cases "process_lines float_of_str args lookup q pre st")
  let ?s = "process_pair float_of_str args lookup q (target_raw, score_txt) s1"
  have o: "out ?s = out s1" using assms(2) by (rule process_pair_bad_score)
  have step: "process_lines float_of_str args lookup q (line # post) s1 =
      process_lines float_of_str args lookup q post ?s"
    using assms(1) by simp
  show "out (fst (process_lines float_of_str args lookup q (pre @ line # post) st)) =
           out (fst (process_lines float_of_str args lookup q (pre @ post) st))"
    using r1 step process_lines_cong(1) [OF o, of float_of_str args lookup q post]
    by (cases e1) (simp_all add: process_lines_append [of _ _ _ _ pre])
  show "snd (process_lines float_of_str args lookup q (pre @ line # post) st) =
           snd (process_lines float_of_str args lookup q (pre @ post) st)"
    using r1 step process_lines_cong(2) [OF o, of float_of_str args lookup q post]
    by (cases e1) (simp_all add: process_lines_append [of _ _ _ _ pre])
qed

text \<open>
  C8. A line whose score field \<open>float\<close> rejects is skipped: the run over the files
  writes the same triplets, and ends in the same way, as the run over the files with
  that line deleted. The line adds nothing to the output, raises nothing, and the lines
  and files after it are processed as they would be without it.
\<close>

theorem bad_score_line_skipped:
  assumes "motif_line args line = Inr (Some (target_raw, score_txt))"
    and "float_of_str score_txt = None"
  shows "out (fst (process_files float_of_str args lookup
                     (before @ (fpath, pre @ line # post) # after) st)) =
         out (fst (process_files float_of_str args lookup
                     (before @ (fpath, pre @ post) # after) st)) \<and>
         snd (process_files float_of_str args lookup
                (before @ (fpath, pre @ line # post) # after) st) =
         snd (process_files float_of_str args lookup
                (before @ (fpath, pre @ post) # after) st)"
proof (induction before arbitrary: st)
  case Nil
  show ?case
  proof (cases "query_id args lookup fpath")
    case None
    then show ?thesis by simp
  next
    case (Some q)
    obtain s1 e1 where r1:
      "process_lines float_of_str args lookup q (pre @ line # post) st = (s1, e1)"
      by (cases "process_lines float_of_str args lookup q (pre @ line # post) st")
    obtain s2 e2 where r2:
      "process_lines float_of_str args lookup q (pre @ post) st = (s2, e2)"
      by (cases "process_lines float_of_str args lookup q (pre @ post) st")
    have eq: "out s1 = out s2" "e1 = e2"
      using process_lines_bad_score [of args line target_raw score_txt float_of_str lookup q pre post st, OF assms] r1 r2 by simp_all
    show ?thesis
    proof (cases e2)
      case None
      then show ?thesis
        using Some r1 r2 eq process_files_cong [OF eq(1), of float_of_str args lookup after] by simp
    next
      case (Some e)
      then show ?thesis using \<open>query_id args lookup fpath = Some q\<close> r1 r2 eq by simp
    qed
  qed
next
  case (Cons f rest)
  obtain p ls where f: "f = (p, ls)" by (cases f)
  show ?case
  proof (cases "query_id args lookup p")
    case None
    then show ?thesis using f Cons.IH by simp
  next
    case (Some q)
    obtain s1 e1 where r1: "process_lines float_of_str args lookup q ls st = (s1, e1)"
      by (cases "process_lines float_of_str args lookup q ls st")
    show ?thesis
      using f Some r1 Cons.IH [of s1] by (cases e1) simp_all
  qed
qed



theorem bad_score_line_skipped_witness:
  "motif_line default_args (''d1xyz_.pdb'' @ [CHR 0x09] @ ''n/a'') = Inr (Some (''d1xyz_.pdb'', ''n/a'')) \<and>
   decimal_literal ''n/a'' = None \<and>
   process_files decimal_literal default_args None
     [(''o/d1abc__motif.out'',
       [''d1xyz_.pdb'' @ [CHR 0x09] @ ''n/a'', ''d2xyz_.pdb'' @ [CHR 0x09] @ ''3.5''])] init_state =
   (init_state\<lparr>out := [(''d1abc_'', ''d2xyz_'', Fin (7 / 2))], total_raw_lines := 2, total_kept := 1\<rparr>, None) \<and>
   out (fst (process_files decimal_literal default_args None
     [(''o/d1abc__motif.out'', [''d2xyz_.pdb'' @ [CHR 0x09] @ ''3.5''])] init_state)) =
   [(''d1abc_'', ''d2xyz_'', Fin (7 / 2))]"
proof -
  let ?bad = "''d1xyz_.pdb'' @ [CHR 0x09] @ ''n/a''"
  let ?good = "''d2xyz_.pdb'' @ [CHR 0x09] @ ''3.5''"
  have h1: "motif_line default_args ?bad = Inr (Some (''d1xyz_.pdb'', ''n/a''))" by code_simp
  have h2: "decimal_literal ''n/a'' = None" by code_simp
  have v: "process_files decimal_literal default_args None
     [(''o/d1abc__motif.out'', [?bad, ?good])] init_state =
     (init_state\<lparr>out := [(''d1abc_'', ''d2xyz_'', Fin (7 / 2))], total_raw_lines := 2, total_kept := 1\<rparr>, None)"
    by code_simp
  from bad_score_line_skipped [of default_args ?bad "''d1xyz_.pdb''" "''n/a''" decimal_literal
      None "[]" "''o/d1abc__motif.out''" "[]" "[?good]" "[]" init_state, OF h1 h2] v
  have "out (fst (process_files decimal_literal default_args None
     [(''o/d1abc__motif.out'', [?good])] init_state)) = [(''d1abc_'', ''d2xyz_'', Fin (7 / 2))]"
    by simp
  with h1 h2 v show ?thesis by blast
qed

lemma cleanup_id_no_lookup: "cleanup_id raw lower_flag None = Some (normalize_id raw lower_flag)"
  by (simp add: cleanup_id_def)

text \<open>With column indices that are not negative no line raises.\<close>

lemma motif_line_no_raise:
  assumes "0 \<le> target_col args" and "0 \<le> score_col args"
  shows "motif_line args line \<noteq> Inl e"
  using assms
  by (auto simp: motif_line_def Let_def index_def split: sum.splits)

lemma process_line_expected:
  assumes "\<not> dry_run args" and "\<forall>e. motif_line args line \<noteq> Inl e"
  shows "\<exists>st'. process_lines float_of_str args None q [line] st = (st', None) \<and>
           out st' = out st @ expected_record float_of_str args q line"
proof -
  let ?stripped = "strip line"
  let ?parts = "line_parts args ?stripped"
  show ?thesis
  proof (cases "?stripped = [] \<or> startswith ?stripped ''#'' \<or> int (length ?parts) < min_fields args")
    case True
    then have "motif_line args line = Inr None" by (auto simp: motif_line_def Let_def)
    moreover have "expected_record float_of_str args q line = []"
      using True by (auto simp: expected_record_def Let_def split: sum.splits option.splits)
    ultimately show ?thesis by simp
  next
    case live: False
    show ?thesis
    proof (cases "int (length ?parts) \<le> target_col args \<or> int (length ?parts) \<le> score_col args")
      case True
      then have "motif_line args line = Inr None" using live by (auto simp: motif_line_def Let_def)
      moreover have "index ?parts (target_col args) = Inl IndexError \<or>
          index ?parts (score_col args) = Inl IndexError"
        using True by (auto simp: index_def)
      then have "expected_record float_of_str args q line = []"
        by (auto simp: expected_record_def Let_def split: sum.splits option.splits)
      ultimately show ?thesis by simp
    next
      case False
      obtain target where t: "index ?parts (target_col args) = Inr target"
        using assms(2) live False
        by (cases "index ?parts (target_col args)") (auto simp: motif_line_def Let_def)
      obtain score_txt where s: "index ?parts (score_col args) = Inr score_txt"
        using assms(2) live False t
        by (cases "index ?parts (score_col args)") (auto simp: motif_line_def Let_def)
      have m: "motif_line args line = Inr (Some (target, score_txt))"
        using live False t s by (simp add: motif_line_def Let_def)
      have c: "cleanup_id target (\<not> no_lower args) None = Some (normalize_id target (\<not> no_lower args))"
        by (rule cleanup_id_no_lookup)
      have "out (process_pair float_of_str args None q (target, score_txt) st) =
          out st @ expected_record float_of_str args q line"
        using live t s assms(1)
        by (cases "float_of_str score_txt")
           (auto simp: process_pair_def expected_record_def Let_def c)
      then show ?thesis using m by simp
    qed
  qed
qed

lemma process_lines_expected:
  assumes "\<not> dry_run args" and "\<forall>line \<in> set lines. \<forall>e. motif_line args line \<noteq> Inl e"
  shows "\<exists>st'. process_lines float_of_str args None q lines st = (st', None) \<and>
           out st' = out st @ concat (map (expected_record float_of_str args q) lines)"
  using assms(2)
proof (induction lines arbitrary: st)
  case Nil
  then show ?case by simp
next
  case (Cons line rest)
  have "\<forall>e. motif_line args line \<noteq> Inl e" using Cons.prems by simp
  then obtain s1 where s1: "process_lines float_of_str args None q [line] st = (s1, None)"
    "out s1 = out st @ expected_record float_of_str args q line"
    using process_line_expected [OF assms(1), of line float_of_str q st] by blast
  have "\<forall>l \<in> set rest. \<forall>e. motif_line args l \<noteq> Inl e" using Cons.prems by simp
  then obtain s2 where s2: "process_lines float_of_str args None q rest s1 = (s2, None)"
    "out s2 = out s1 @ concat (map (expected_record float_of_str args q) rest)"
    using Cons.IH [of s1] by blast
  have "process_lines float_of_str args None q (line # rest) st = (s2, None)"
    using process_lines_append [of float_of_str args None q "[line]" rest st] s1(1) s2(1) by simp
  then show ?case using s1(2) s2(2) by simp
qed

lemma query_id_no_lookup_eq:
  "query_id args None fpath = Some (normalize_id (extract_query_id fpath) (\<not> no_lower args))"
  by (simp add: query_id_def cleanup_id_no_lookup)

lemma process_files_expected:
  assumes "\<not> dry_run args"
    and "\<forall>(fpath, lines) \<in> set files. \<forall>line \<in> set lines. \<forall>e. motif_line args line \<noteq> Inl e"
  shows "\<exists>st'. process_files float_of_str args None files st = (st', None) \<and>
           out st' = out st @ expected_records float_of_str args files"
  using assms(2)
proof (induction files arbitrary: st)
  case Nil
  then show ?case by (simp add: expected_records_def)
next
  case (Cons f rest)
  obtain fpath lines where f: "f = (fpath, lines)" by (cases f)
  let ?q = "normalize_id (extract_query_id fpath) (\<not> no_lower args)"
  have "\<forall>line \<in> set lines. \<forall>e. motif_line args line \<noteq> Inl e" using Cons.prems f by simp
  then obtain s1 where s1: "process_lines float_of_str args None ?q lines st = (s1, None)"
    "out s1 = out st @ concat (map (expected_record float_of_str args ?q) lines)"
    using process_lines_expected [OF assms(1), of lines float_of_str ?q st] by blast
  have "\<forall>(fpath, lines) \<in> set rest. \<forall>line \<in> set lines. \<forall>e. motif_line args line \<noteq> Inl e"
    using Cons.prems by simp
  then obtain s2 where s2: "process_files float_of_str args None rest s1 = (s2, None)"
    "out s2 = out s1 @ expected_records float_of_str args rest"
    using Cons.IH [of s1] by blast
  have "process_files float_of_str args None (f # rest) st = (s2, None)"
    using f s1(1) s2(1) by (simp add: query_id_no_lookup_eq)
  moreover have "out s2 = out st @ expected_records float_of_str args (f # rest)"
    using s1(2) s2(2) f by (simp add: expected_records_def)
  ultimately show ?case by blast
qed

text \<open>
  C10, as amended. Without a lookup set \<open>cleanup_id\<close> never returns \<open>None\<close>, so no file
  and no line is dropped because an ID cannot be resolved. Outside dry-run mode, and
  when no line of a processed file raises \<open>IndexError\<close> (a column index below minus the
  number of its fields), the run returns 0 and the output holds, after the optional
  header and in order, exactly one record for each line of each processed file that is
  not blank, does not start with \<open>#\<close>, has at least \<open>min-fields\<close> fields, column indices
  that select a field, and a score that \<open>float\<close> accepts, unless it is a filtered
  self-hit. The processed files are those that \<open>--max-files\<close> keeps.
\<close>

theorem no_lookup_every_line_kept:
  assumes "\<not> dry_run args"
    and "limit_files args files \<noteq> []"
    and "\<forall>(fpath, lines) \<in> set (limit_files args files).
           \<forall>line \<in> set lines. \<forall>e. motif_line args line \<noteq> Inl e"
  shows "cleanup_id raw lower_flag None = Some (normalize_id raw lower_flag) \<and>
         main float_of_str str_of_float args None files =
           (Inr 0,
            (if add_header args then [header_line] else []) @
            map (render_triplet str_of_float)
                (expected_records float_of_str args (limit_files args files)))"
proof -
  obtain st where st: "process_files float_of_str args None (limit_files args files) init_state = (st, None)"
    "out st = out init_state @ expected_records float_of_str args (limit_files args files)"
    using process_files_expected [OF assms(1) assms(3), of float_of_str init_state] by blast
  have "out st = expected_records float_of_str args (limit_files args files)"
    using st(2) by (simp add: init_state_def)
  then have "main float_of_str str_of_float args None files =
           (Inr 0,
            (if add_header args then [header_line] else []) @
            map (render_triplet str_of_float)
                (expected_records float_of_str args (limit_files args files)))"
    using assms(1,2) st(1) by (simp add: main_def)
  then show ?thesis by (simp add: cleanup_id_no_lookup)
qed


theorem no_lookup_every_line_kept_witness:
  "limit_files (default_args\<lparr>max_files := Some 2\<rparr>)
     [(''o/d1abc__motif.out'',
       [''# target score'', ''d1abc_.pdb'' @ [CHR 0x09] @ ''9.5'', ''d1xyz_.pdb'' @ [CHR 0x09] @ ''3.5'',
        ''d2xyz_.pdb'' @ [CHR 0x09] @ ''n/a'', ''d1xyz_.pdb'' @ [CHR 0x09] @ ''3.5'']),
      (''o/d2abc__motif.out'', [''/p/pdb/D1XYZ_.ent.gz 0.25 extra'', []]),
      (''o/d3abc__motif.out'', [''d1xyz_.pdb'' @ [CHR 0x09] @ ''1.5''])] =
   [(''o/d1abc__motif.out'',
       [''# target score'', ''d1abc_.pdb'' @ [CHR 0x09] @ ''9.5'', ''d1xyz_.pdb'' @ [CHR 0x09] @ ''3.5'',
        ''d2xyz_.pdb'' @ [CHR 0x09] @ ''n/a'', ''d1xyz_.pdb'' @ [CHR 0x09] @ ''3.5'']),
      (''o/d2abc__motif.out'', [''/p/pdb/D1XYZ_.ent.gz 0.25 extra'', []])] \<and>
   main decimal_literal decimal_text (default_args\<lparr>max_files := Some 2\<rparr>) None
     [(''o/d1abc__motif.out'',
       [''# target score'', ''d1abc_.pdb'' @ [CHR 0x09] @ ''9.5'', ''d1xyz_.pdb'' @ [CHR 0x09] @ ''3.5'',
        ''d2xyz_.pdb'' @ [CHR 0x09] @ ''n/a'', ''d1xyz_.pdb'' @ [CHR 0x09] @ ''3.5'']),
      (''o/d2abc__motif.out'', [''/p/pdb/D1XYZ_.ent.gz 0.25 extra'', []]),
      (''o/d3abc__motif.out'', [''d1xyz_.pdb'' @ [CHR 0x09] @ ''1.5''])] =
   (Inr 0, map (render_triplet decimal_text)
      [(''d1abc_'', ''d1xyz_'', Fin (7 / 2)), (''d1abc_'', ''d1xyz_'', Fin (7 / 2)),
       (''d2abc_'', ''d1xyz_'', Fin (1 / 4))])"
proof -
  let ?args = "default_args\<lparr>max_files := Some 2\<rparr>"
  let ?files = "[(''o/d1abc__motif.out'',
       [''# target score'', ''d1abc_.pdb'' @ [CHR 0x09] @ ''9.5'', ''d1xyz_.pdb'' @ [CHR 0x09] @ ''3.5'',
        ''d2xyz_.pdb'' @ [CHR 0x09] @ ''n/a'', ''d1xyz_.pdb'' @ [CHR 0x09] @ ''3.5'']),
      (''o/d2abc__motif.out'', [''/p/pdb/D1XYZ_.ent.gz 0.25 extra'', []]),
      (''o/d3abc__motif.out'', [''d1xyz_.pdb'' @ [CHR 0x09] @ ''1.5''])]"
  have l: "limit_files ?args ?files =
     [(''o/d1abc__motif.out'',
       [''# target score'', ''d1abc_.pdb'' @ [CHR 0x09] @ ''9.5'', ''d1xyz_.pdb'' @ [CHR 0x09] @ ''3.5'',
        ''d2xyz_.pdb'' @ [CHR 0x09] @ ''n/a'', ''d1xyz_.pdb'' @ [CHR 0x09] @ ''3.5'']),
      (''o/d2abc__motif.out'', [''/p/pdb/D1XYZ_.ent.gz 0.25 extra'', []])]"
    by code_simp
  have h1: "\<not> dry_run ?args" by (simp add: default_args_def)
  have h2: "limit_files ?args ?files \<noteq> []" by (simp only: l) simp
  have nr: "motif_line ?args line \<noteq> Inl e" for line e
    by (rule motif_line_no_raise) (simp_all add: default_args_def)
  have h3: "\<forall>(fpath, lines) \<in> set (limit_files ?args ?files).
      \<forall>line \<in> set lines. \<forall>e. motif_line ?args line \<noteq> Inl e"
    using nr by blast
  have a: "\<not> add_header ?args" by (simp add: default_args_def)
  have v: "expected_records decimal_literal ?args (limit_files ?args ?files) =
      [(''d1abc_'', ''d1xyz_'', Fin (7 / 2)), (''d1abc_'', ''d1xyz_'', Fin (7 / 2)),
       (''d2abc_'', ''d1xyz_'', Fin (1 / 4))]"
    by code_simp
  have "main decimal_literal decimal_text ?args None ?files =
      (Inr 0, map (render_triplet decimal_text)
        [(''d1abc_'', ''d1xyz_'', Fin (7 / 2)), (''d1abc_'', ''d1xyz_'', Fin (7 / 2)),
         (''d2abc_'', ''d1xyz_'', Fin (1 / 4))])"
    using no_lookup_every_line_kept [of ?args ?files "[]" True decimal_literal decimal_text,
        OF h1 h2 h3] a
    by (simp only: v) simp
  with l show ?thesis by (rule conjI)
qed

text \<open>
  C10 as stated fails on a comment line: \<open>#d1xyz_\<close>, a tab and \<open>3.5\<close> has two fields,
  columns 0 and 1 select them, the score is numeric and the target differs from the
  query, and yet \<open>iter_motif_lines\<close> passes the line over and nothing is written.
\<close>

theorem comment_line_counterexample:
  "line_parts default_args (strip (''#d1xyz_'' @ [CHR 0x09] @ ''3.5'')) = [''#d1xyz_'', ''3.5''] \<and>
   min_fields default_args \<le> 2 \<and> target_col default_args = 0 \<and> score_col default_args = 1 \<and>
   decimal_literal ''3.5'' = Some (Fin (7 / 2)) \<and>
   ''d1abc_'' \<noteq> normalize_id ''#d1xyz_'' (\<not> no_lower default_args) \<and>
   process_lines decimal_literal default_args None ''d1abc_''
     [''#d1xyz_'' @ [CHR 0x09] @ ''3.5''] init_state = (init_state, None) \<and>
   out init_state = []"
  by code_simp


text \<open>
  C7. A result file named \<open>d1abc__A_motif.out\<close> with the single line
  \<open>/p/pdb/d1xyz_.pdb\t3.5\<close>, no lookup set and the default flags gives return code 0 and
  exactly the output line \<open>d1abc__a\td1xyz_\t3.5\<close>. Python's own \<open>float\<close> and float
  formatting enter as the two facts that \<open>float('3.5')\<close> is a value printed as \<open>3.5\<close>.
\<close>

theorem combined_row_example:
  assumes "basename fpath = ''d1abc__A_motif.out''"
    and "nl = [] \<or> nl = [CHR 0x0A]"
    and "float_of_str ''3.5'' = Some v" and "str_of_float v = ''3.5''"
  shows "main float_of_str str_of_float default_args None
           [(fpath, [''/p/pdb/d1xyz_.pdb'' @ [CHR 0x09] @ ''3.5'' @ nl])] =
         (Inr 0, [''d1abc__a'' @ [CHR 0x09] @ ''d1xyz_'' @ [CHR 0x09] @ ''3.5'' @ [CHR 0x0A]])"
proof -
  let ?line = "''/p/pdb/d1xyz_.pdb'' @ [CHR 0x09] @ ''3.5'' @ nl"
  have e: "rsplit1_head CHR ''_'' ''d1abc__A_motif.out'' = ''d1abc__A''" by code_simp
  have c: "cleanup_id ''d1abc__A'' (\<not> no_lower default_args) None = Some ''d1abc__a''"
    by code_simp
  have q: "query_id default_args None fpath = Some ''d1abc__a''"
    by (simp add: query_id_def extract_query_id_def assms(1) e c Let_def)
  have m: "motif_line default_args ?line = Inr (Some (''/p/pdb/d1xyz_.pdb'', ''3.5''))"
  proof -
    have "motif_line default_args (''/p/pdb/d1xyz_.pdb'' @ [CHR 0x09] @ ''3.5'' @ []) =
        Inr (Some (''/p/pdb/d1xyz_.pdb'', ''3.5''))"
      by code_simp
    moreover have "motif_line default_args (''/p/pdb/d1xyz_.pdb'' @ [CHR 0x09] @ ''3.5'' @ [CHR 0x0A]) =
        Inr (Some (''/p/pdb/d1xyz_.pdb'', ''3.5''))"
      by code_simp
    ultimately show ?thesis using assms(2) by blast
  qed
  have t: "cleanup_id ''/p/pdb/d1xyz_.pdb'' (\<not> no_lower default_args) None = Some ''d1xyz_''"
    by code_simp
  have f: "\<not> keep_selfhits default_args" "\<not> dry_run default_args" "\<not> add_header default_args"
    "max_files default_args = None"
    by (simp_all add: default_args_def)
  have pp: "out (process_pair float_of_str default_args None ''d1abc__a''
                  (''/p/pdb/d1xyz_.pdb'', ''3.5'') init_state) = [(''d1abc__a'', ''d1xyz_'', v)]"
    by (simp add: process_pair_def Let_def t f assms(3) init_state_def)
  have pf: "process_files float_of_str default_args None [(fpath, [?line])] init_state =
      (process_pair float_of_str default_args None ''d1abc__a''
         (''/p/pdb/d1xyz_.pdb'', ''3.5'') init_state, None)"
    using q m by simp
  show ?thesis
    using pf pp by (simp add: main_def limit_files_def f render_triplet_def assms(4))
qed

theorem combined_row_example_witness:
  "basename ''run_10pct/d1abc__A_motif.out'' = ''d1abc__A_motif.out'' \<and>
   decimal_literal ''3.5'' = Some (Fin (7 / 2)) \<and> decimal_text (Fin (7 / 2)) = ''3.5'' \<and>
   main decimal_literal decimal_text default_args None
     [(''run_10pct/d1abc__A_motif.out'', [''/p/pdb/d1xyz_.pdb'' @ [CHR 0x09] @ ''3.5'' @ [CHR 0x0A]])] =
   (Inr 0, [''d1abc__a'' @ [CHR 0x09] @ ''d1xyz_'' @ [CHR 0x09] @ ''3.5'' @ [CHR 0x0A]])"
proof -
  have h1: "basename ''run_10pct/d1abc__A_motif.out'' = ''d1abc__A_motif.out''" by code_simp
  have h2: "[CHR 0x0A] = [] \<or> [CHR 0x0A] = [CHR 0x0A]" by simp
  have h3: "decimal_literal ''3.5'' = Some (Fin (7 / 2))" by code_simp
  have h4: "decimal_text (Fin (7 / 2)) = ''3.5''" by code_simp
  from combined_row_example [of "''run_10pct/d1abc__A_motif.out''" "[CHR 0x0A]" decimal_literal
      "Fin (7 / 2)" decimal_text, OF h1 h2 h3 h4] h1 h3 h4
  show ?thesis by blast
qed

end
